theory Spec2Isabelle
  imports Main "HOL-Library.Log_Nat" "HOL-Library.Signed_Division"
begin

section \<open>Machine arithmetic used by the downloader\<close>

text \<open>
  The Go source computes with \<^verbatim>\<open>int64\<close> and, in one place, with \<^verbatim>\<open>float64\<close>.
  Both are modelled on unbounded numbers with the machine behaviour written out:
  \<open>i64\<close> is the two's complement wrap-around of a 64-bit signed integer, applied after
  every \<^verbatim>\<open>int64\<close> operation of the source; \<open>go_rem\<close> is Go's \<^verbatim>\<open>%\<close>, whose result
  takes the sign of the dividend.
\<close>

definition i64 :: "int \<Rightarrow> int" where
  "i64 x = signed_take_bit 63 x"

definition go_rem :: "int \<Rightarrow> int \<Rightarrow> int" where
  "go_rem a b = a smod b"

text \<open>
  A \<^verbatim>\<open>float64\<close> value is modelled by the rational number it denotes. \<open>f64_round\<close>
  rounds a rational to the nearest number with a 53-bit significand, ties to even (the
  IEEE 754 default that Go uses for conversions and for \<^verbatim>\<open>/\<close>). The exponent range of
  \<^verbatim>\<open>float64\<close> is left out: the only floats the program forms are conversions of
  \<^verbatim>\<open>int64\<close> values and one quotient of two of them, whose magnitudes lie between
  \<open>2\<^sup>-\<^sup>6\<^sup>3\<close> and \<open>2\<^sup>6\<^sup>3\<close>, far from overflow and from the subnormal numbers.
  \<open>ilog2 q\<close> is the binary exponent \<open>\<lfloor>log\<^sub>2 q\<rfloor>\<close> of a positive rational.
\<close>

definition round_half_even :: "rat \<Rightarrow> int" where
  "round_half_even x =
     (let f = \<lfloor>x\<rfloor>; r = x - of_int f
      in if r < 1 / 2 then f else if 1 / 2 < r then f + 1 else if even f then f else f + 1)"

definition ilog2 :: "rat \<Rightarrow> int" where
  "ilog2 q =
     (let (n, d) = quotient_of q; e = bitlen n - bitlen d
      in if (of_int d :: rat) * power_int 2 e \<le> of_int n then e else e - 1)"

definition f64_round :: "rat \<Rightarrow> rat" where
  "f64_round q =
     (if q = 0 then 0
      else let e = ilog2 \<bar>q\<bar> - 52
           in sgn q * of_int (round_half_even (\<bar>q\<bar> / power_int 2 e)) * power_int 2 e)"

text \<open>\<^verbatim>\<open>float64(x)\<close> for an \<^verbatim>\<open>int64\<close> \<open>x\<close>, and the quotient \<^verbatim>\<open>a / b\<close> of two floats.\<close>

definition f64_of_int64 :: "int \<Rightarrow> rat" where
  "f64_of_int64 x = f64_round (of_int x)"

definition f64_quo :: "rat \<Rightarrow> rat \<Rightarrow> rat" where
  "f64_quo a b = f64_round (a / b)"

text \<open>
  \<^verbatim>\<open>math.Modf\<close> returns the integer part of its argument (rounded towards zero) as a
  float; \<^verbatim>\<open>int64(f)\<close> truncates a float towards zero. For a float outside the
  \<^verbatim>\<open>int64\<close> range Go leaves the result of the conversion to the implementation; the
  model wraps it, which is what amd64 does for \<open>2\<^sup>6\<^sup>3\<close>, and no theorem below depends
  on that case.
\<close>

definition trunc_rat :: "rat \<Rightarrow> int" where
  "trunc_rat x = (if x < 0 then - \<lfloor>- x\<rfloor> else \<lfloor>x\<rfloor>)"

definition modf_int :: "rat \<Rightarrow> rat" where
  "modf_int x = of_int (trunc_rat x)"

definition int64_of_f64 :: "rat \<Rightarrow> int" where
  "int64_of_f64 x = i64 (trunc_rat x)"

section \<open>Data model\<close>

text \<open>
  \<^verbatim>\<open>type Resumer struct\<close> of \<^verbatim>\<open>main.go\<close>. The field \<^verbatim>\<open>httpClient\<close> is the zero
  \<^verbatim>\<open>http.Client\<close> and carries no state of the transfer; what it does is the
  environment \<open>env\<close> below.
\<close>

record Resumer =
  OutputFilename :: string
  chunkSize :: int
  DoneElements :: int
  TotalElements :: int
  NoDetails :: bool

text \<open>
  The document \<^verbatim>\<open>json.MarshalIndent(r, ...)\<close> produces for a \<^verbatim>\<open>Resumer\<close>:
  \<^verbatim>\<open>encoding/json\<close> writes the exported fields only, under the names of their tags.
  \<^verbatim>\<open>chunkSize\<close> and \<^verbatim>\<open>httpClient\<close> start with a lower-case letter and are not part of
  it. A resumer file holds such a document or bytes that \<^verbatim>\<open>json.Unmarshal\<close> rejects.
\<close>

record sidecar =
  j_outputFilename :: string
  j_doneElements :: int
  j_totalElements :: int
  j_noDetails :: bool

datatype sidecar_file = Json sidecar | Garbage

text \<open>
  The command-line flags after \<^verbatim>\<open>flag.Parse\<close> and \<^verbatim>\<open>strings.TrimSpace\<close>. The flag
  \<^verbatim>\<open>output\<close> is called \<open>outputPath\<close> here, \<open>output\<close> being a keyword of the prover.
\<close>

record flags =
  username :: string
  password :: string
  crawl :: nat
  noDetails :: bool
  outputPath :: string
  noResume :: bool

text \<open>
  One HTTP request as \<^verbatim>\<open>fetchRawChunk\<close> sends it: the credentials of the URL, the
  crawl of the path and the four query parameters.
\<close>

datatype format = Tsv | JsonFmt

record request =
  req_username :: string
  req_password :: string
  req_crawl :: nat
  req_deep :: string
  req_chunk :: int
  req_chunk_size :: int
  req_output :: format

text \<open>
  What a request comes back with. \<open>TransportError\<close> is any non-nil \<^verbatim>\<open>err\<close> of
  \<^verbatim>\<open>fetchRawChunk\<close>. \<open>Reply status lines scanErr\<close> is a response with that status code
  whose body \<^verbatim>\<open>bufio.Scanner\<close> splits into \<open>lines\<close> before it stops; \<open>scanErr\<close> says
  whether it stopped on an error (\<^verbatim>\<open>scanner.Err() != nil\<close>, a line longer than the
  scanner's buffer) rather than at the end of the body. The remote side is an
  environment: the reply may depend on the request and on how many requests were sent
  before it.
\<close>

datatype response = TransportError | Reply int "string list" bool

type_synonym env = "nat \<Rightarrow> request \<Rightarrow> response"

text \<open>
  The reply to the probe of \<^verbatim>\<open>fetchTotalElements\<close>: a transport error, or a status code
  with what \<^verbatim>\<open>json.Unmarshal\<close> makes of the body (\<open>None\<close> when it fails, else
  \<^verbatim>\<open>chunk.total\<close>).
\<close>

datatype probe_reply = ProbeTransportError | ProbeReply int "int option"

type_synonym probe_env = "nat \<Rightarrow> probe_reply"

text \<open>
  Observable effects are recorded in a trace: requests sent, sleeps (in seconds), lines
  printed for the user, the status line of completion and the removal of the resumer
  file. The percentage status line and the speed estimate \<^verbatim>\<open>averageTimePer1000\<close> are
  left out: they depend on wall-clock time and feed the progress display only.
\<close>

datatype message =
    NoDownloadToResume | FileAlreadyExists | CannotResumeNoOutput | CannotResumeNoResumer
  | DetailsWarning bool bool | ProbeFailed | NetworkErrorMsg | AccessDenied | NotFound
  | UnknownError int | ScanErrorMsg

datatype event = Fetch request | Sleep nat | Println message | StatusCompleted | RemoveResumer

datatype panic = DivideByZero | NilWriter | ResumerFileError

datatype outcome =
  Completed | NetworkFailure | Fatal int | ScanFailure | Panic panic | Exit0 | OutOfFuel

text \<open>
  The package-level variables and the two files the program works on. \<open>outputWriter\<close>
  is \<open>None\<close> while the Go variable is \<^verbatim>\<open>nil\<close>. \<open>out_file\<close> is the content of the file
  \<^verbatim>\<open>output\<close> and \<open>side_file\<close> that of \<^verbatim>\<open>output + ".audisto_"\<close> (\<open>None\<close>: the file does
  not exist); \<open>console\<close> is what \<open>outputWriter\<close> wrote to standard output. \<open>calls\<close>
  counts the requests sent so far. Opening, creating and writing files are taken to
  succeed. The two counters are Go \<^verbatim>\<open>int\<close>s that only ever grow by one; they are
  modelled without wrap-around.
\<close>

datatype sink = Stdout | OutputFile

record world =
  res :: Resumer
  outputWriter :: "sink option"
  timeoutCount :: int
  errorCount :: int
  out_file :: "string option"
  side_file :: "sidecar_file option"
  console :: string
  calls :: nat
  trace :: "event list"

definition say :: "event \<Rightarrow> world \<Rightarrow> world" where
  "say e w = w\<lparr>trace := trace w @ [e]\<rparr>"

section \<open>The operations of \<^verbatim>\<open>main.go\<close>\<close>

subsection \<open>\<^verbatim>\<open>retry\<close>\<close>

text \<open>
  \<^verbatim>\<open>retry(attempts, sleep, callback)\<close>: the callback runs; on success its result is
  returned; on an error, if \<open>i \<ge> attempts - 1\<close> the loop breaks and the error is
  returned, otherwise \<^verbatim>\<open>errorCount\<close> is incremented, the process sleeps and the loop
  goes on. \<open>retry_loop\<close> counts down \<open>attempts - 1 - i\<close>. A panic inside the callback
  leaves the loop at once.
\<close>

datatype 'a attempt = Got 'a | Failed | Panicked panic

fun retry_loop ::
  "nat \<Rightarrow> nat \<Rightarrow> (world \<Rightarrow> 'a attempt \<times> world) \<Rightarrow> world \<Rightarrow> 'a attempt \<times> world" where
  "retry_loop 0 sleep callback w = callback w"
| "retry_loop (Suc left) sleep callback w =
     (case callback w of
        (Failed, w') \<Rightarrow>
          retry_loop left sleep callback
            (w'\<lparr>errorCount := errorCount w' + 1, trace := trace w' @ [Sleep sleep]\<rparr>)
      | (r, w') \<Rightarrow> (r, w'))"

definition retry ::
  "int \<Rightarrow> nat \<Rightarrow> (world \<Rightarrow> 'a attempt \<times> world) \<Rightarrow> world \<Rightarrow> 'a attempt \<times> world" where
  "retry attempts sleep callback w = retry_loop (nat (attempts - 1)) sleep callback w"

subsection \<open>\<^verbatim>\<open>Resumer.nextChunkNumber\<close> and \<^verbatim>\<open>Resumer.nextChunk\<close>\<close>

text \<open>
  \<^verbatim>\<open>nextChunkNumber\<close> returns \<open>(0, 0)\<close> when nothing is done yet. Otherwise the rows to
  skip are \<^verbatim>\<open>r.DoneElements % r.chunkSize\<close>, an integer remainder that panics on a zero
  \<^verbatim>\<open>chunkSize\<close>, and the chunk number is the integer part of the \<^verbatim>\<open>float64\<close> quotient
  \<^verbatim>\<open>float64(r.DoneElements) / float64(r.chunkSize)\<close>, converted back to \<^verbatim>\<open>int64\<close>.
\<close>

definition nextChunkNumber :: "Resumer \<Rightarrow> panic + (int \<times> int)" where
  "nextChunkNumber r =
     (if DoneElements r = 0 then Inr (0, 0)
      else if chunkSize r = 0 then Inl DivideByZero
      else
        let skipNRows = go_rem (DoneElements r) (chunkSize r);
            nextChunkNumberFloat =
              modf_int (f64_quo (f64_of_int64 (DoneElements r)) (f64_of_int64 (chunkSize r)))
        in Inr (int64_of_f64 nextChunkNumberFloat, skipNRows))"

text \<open>
  The first half of \<^verbatim>\<open>nextChunk\<close>: the chunk address, one more row to skip when
  \<^verbatim>\<open>DoneElements > 0\<close>, and the request built from it.
\<close>

definition chunk_request :: "flags \<Rightarrow> Resumer \<Rightarrow> panic + (request \<times> int)" where
  "chunk_request fl r =
     (case nextChunkNumber r of
        Inl p \<Rightarrow> Inl p
      | Inr (n, skipNRows) \<Rightarrow>
          Inr (\<lparr>req_username = username fl, req_password = password fl, req_crawl = crawl fl,
                 req_deep = (if noDetails fl then ''0'' else ''1''),
                 req_chunk = n, req_chunk_size = chunkSize r, req_output = Tsv\<rparr>,
               if DoneElements r > 0 then i64 (skipNRows + 1) else skipNRows))"

definition fetchRawChunk :: "env \<Rightarrow> request \<Rightarrow> world \<Rightarrow> response \<times> world" where
  "fetchRawChunk env rq w =
     (env (calls w) rq, w\<lparr>calls := calls w + 1, trace := trace w @ [Fetch rq]\<rparr>)"

text \<open>
  \<^verbatim>\<open>nextChunk\<close> as the callback of \<^verbatim>\<open>retry\<close> in \<^verbatim>\<open>main\<close>: on success it hands over
  status code, scanned body, scanner error flag and the rows to skip.
\<close>

definition nextChunk ::
  "flags \<Rightarrow> env \<Rightarrow> world \<Rightarrow> (int \<times> string list \<times> bool \<times> int) attempt \<times> world" where
  "nextChunk fl env w =
     (case chunk_request fl (res w) of
        Inl p \<Rightarrow> (Panicked p, w)
      | Inr (rq, skipNRows) \<Rightarrow>
          (case fetchRawChunk env rq w of
             (TransportError, w') \<Rightarrow> (Failed, w')
           | (Reply statusCode body scanErr, w') \<Rightarrow>
               (Got (statusCode, body, scanErr, skipNRows), w')))"

subsection \<open>\<^verbatim>\<open>Resumer.PersistConfig\<close>\<close>

text \<open>
  Nothing is saved when the rows go to standard output. Otherwise the resumer file is
  overwritten with the JSON document of the \<^verbatim>\<open>Resumer\<close>.
\<close>

definition PersistConfig :: "flags \<Rightarrow> world \<Rightarrow> world" where
  "PersistConfig fl w =
     (if outputPath fl = [] then w
      else w\<lparr>side_file := Some (Json \<lparr>j_outputFilename = OutputFilename (res w),
                                         j_doneElements = DoneElements (res w),
                                         j_totalElements = TotalElements (res w),
                                         j_noDetails = NoDetails (res w)\<rparr>)\<rparr>)"

subsection \<open>The body of the loop in \<^verbatim>\<open>main\<close>\<close>

text \<open>
  Each line goes to \<open>outputWriter\<close> followed by a newline. The writer is a
  \<^verbatim>\<open>bufio.Writer\<close>; the model hands its buffer to the file at \<^verbatim>\<open>Flush\<close>.
\<close>

definition render :: "string list \<Rightarrow> string" where
  "render ls = concat (map (\<lambda>l. l @ [CHR 0x0A]) ls)"

definition flush_to :: "sink \<Rightarrow> string \<Rightarrow> world \<Rightarrow> world" where
  "flush_to s bytes w =
     (case s of
        Stdout \<Rightarrow> w\<lparr>console := console w @ bytes\<rparr>
      | OutputFile \<Rightarrow>
          w\<lparr>out_file := Some (case out_file w of None \<Rightarrow> bytes | Some old \<Rightarrow> old @ bytes)\<rparr>)"

text \<open>
  Lines 314 to 335: when \<^verbatim>\<open>DoneElements\<close> is 0 the scanner is advanced once and its
  token (empty if the body is empty) is written as the header line; \<open>skip\<close> further
  lines are scanned and dropped; every remaining line is written and counted in
  \<^verbatim>\<open>DoneElements\<close>; the writer is flushed. With a \<^verbatim>\<open>nil\<close> writer the first
  \<^verbatim>\<open>Write\<close>, or else \<^verbatim>\<open>Flush\<close>, panics before anything is counted.
\<close>

definition write_rows :: "string list \<Rightarrow> int \<Rightarrow> world \<Rightarrow> panic + world" where
  "write_rows body skip w =
     (case outputWriter w of
        None \<Rightarrow> Inl NilWriter
      | Some s \<Rightarrow>
          let first = (if DoneElements (res w) = 0
                       then [case body of [] \<Rightarrow> [] | l # _ \<Rightarrow> l] else []);
              rest = (if DoneElements (res w) = 0 then drop 1 body else body);
              rows = drop (nat skip) rest;
              r' = (res w)\<lparr>DoneElements := i64 (DoneElements (res w) + int (length rows))\<rparr>
          in Inr (flush_to s (render (first @ rows)) (w\<lparr>res := r'\<rparr>)))"

text \<open>Lines 297 to 303, the reaction to a 504 before the sleep.\<close>

definition shrink :: "world \<Rightarrow> world" where
  "shrink w =
     (let w1 = w\<lparr>timeoutCount := timeoutCount w + 1\<rparr>
      in if timeoutCount w1 \<ge> 3 then
           (if i64 (chunkSize (res w1) - 1000) > 0
            then w1\<lparr>res := (res w1)\<lparr>chunkSize := i64 (chunkSize (res w1) - 1000)\<rparr>,
                    timeoutCount := 0\<rparr>
            else w1)
         else w1)"

text \<open>Lines 240 to 243.\<close>

definition clamp :: "world \<Rightarrow> world" where
  "clamp w =
     (let remainingElements = i64 (TotalElements (res w) - DoneElements (res w))
      in if remainingElements < chunkSize (res w)
         then w\<lparr>res := (res w)\<lparr>chunkSize := remainingElements\<rparr>\<rparr> else w)"

text \<open>
  One pass through the loop is split where the claims about interruption need it:
  \<open>transfer\<close> runs from the top of the loop to \<^verbatim>\<open>outputWriter.Flush()\<close> (line 335),
  \<open>commit\<close> from \<^verbatim>\<open>res.PersistConfig()\<close> (line 337) to the end of the body. A pass ends
  the program (\<open>Finished\<close>), goes round again without having written anything
  (\<open>Again\<close>, the \<^verbatim>\<open>continue MainLoop\<close> branches) or reaches the flush (\<open>Flushed\<close>, with
  the scanner's error flag still to be looked at).
\<close>

datatype stage = Finished outcome world | Again world | Flushed bool world

text \<open>Lines 265 to 335, from the status code on.\<close>

definition classify :: "(int \<times> string list \<times> bool \<times> int) \<Rightarrow> world \<Rightarrow> stage" where
  "classify got w =
     (case got of (statusCode, body, scanErr, skip) \<Rightarrow>
        let w1 = (if statusCode \<noteq> 200 then w\<lparr>errorCount := errorCount w + 1\<rparr> else w)
        in if statusCode = 429 then Again (say (Sleep 30) w1)
           else if 400 \<le> statusCode \<and> statusCode < 500 then
             (if statusCode = 403 then Finished (Fatal statusCode) (say (Println AccessDenied) w1)
              else if statusCode = 404 then Finished (Fatal statusCode) (say (Println NotFound) w1)
              else Finished (Fatal statusCode) (say (Println (UnknownError statusCode)) w1))
           else if statusCode = 504 then Again (say (Sleep 30) (shrink w1))
           else if 500 \<le> statusCode \<and> statusCode < 600 then Again (say (Sleep 30) w1)
           else (case write_rows body skip w1 of
                   Inl p \<Rightarrow> Finished (Panic p) w1
                 | Inr w2 \<Rightarrow> Flushed scanErr w2))"

definition transfer :: "flags \<Rightarrow> env \<Rightarrow> world \<Rightarrow> stage" where
  "transfer fl env w =
     (if DoneElements (res w) = TotalElements (res w) then
        Finished Completed
          (if outputPath fl \<noteq> []
           then (say RemoveResumer (say StatusCompleted w))\<lparr>side_file := None\<rparr>
           else say StatusCompleted w)
      else
        (case retry 5 10 (nextChunk fl env) (clamp w) of
           (Failed, w') \<Rightarrow> Finished NetworkFailure (say (Println NetworkErrorMsg) w')
         | (Panicked p, w') \<Rightarrow> Finished (Panic p) w'
         | (Got got, w') \<Rightarrow> classify got w'))"

definition commit :: "flags \<Rightarrow> bool \<Rightarrow> world \<Rightarrow> outcome option \<times> world" where
  "commit fl scanErr w =
     (let w1 = PersistConfig fl w
      in if scanErr
         then (Some ScanFailure,
               say (Println ScanErrorMsg) (w1\<lparr>errorCount := errorCount w1 + 1\<rparr>))
         else (None, w1))"

definition iteration :: "flags \<Rightarrow> env \<Rightarrow> world \<Rightarrow> outcome option \<times> world" where
  "iteration fl env w =
     (case transfer fl env w of
        Finished oc w' \<Rightarrow> (Some oc, w')
      | Again w' \<Rightarrow> (None, w')
      | Flushed scanErr w' \<Rightarrow> commit fl scanErr w')"

text \<open>
  The loop \<^verbatim>\<open>MainLoop\<close> has no bound of its own: a server that keeps answering 429 keeps
  it running. \<open>main_loop n\<close> runs at most \<open>n\<close> passes and says \<open>OutOfFuel\<close> when the
  program is still running after them, so that a statement that the program ends is a
  statement that some \<open>n\<close> gives another outcome.
\<close>

fun main_loop :: "nat \<Rightarrow> flags \<Rightarrow> env \<Rightarrow> world \<Rightarrow> outcome \<times> world" where
  "main_loop 0 fl env w = (OutOfFuel, w)"
| "main_loop (Suc n) fl env w =
     (case iteration fl env w of
        (Some oc, w') \<Rightarrow> (oc, w')
      | (None, w') \<Rightarrow> main_loop n fl env w')"

subsection \<open>\<^verbatim>\<open>totalElements\<close> and \<^verbatim>\<open>init\<close>\<close>

definition fetchTotalElements ::
  "flags \<Rightarrow> probe_env \<Rightarrow> world \<Rightarrow> (int \<times> int option) attempt \<times> world" where
  "fetchTotalElements fl penv w =
     (let rq = \<lparr>req_username = username fl, req_password = password fl, req_crawl = crawl fl,
                req_deep = ''0'', req_chunk = 0, req_chunk_size = 1, req_output = JsonFmt\<rparr>;
          w' = w\<lparr>calls := calls w + 1, trace := trace w @ [Fetch rq]\<rparr>
      in case penv (calls w) of
           ProbeTransportError \<Rightarrow> (Failed, w')
         | ProbeReply statusCode totalRows \<Rightarrow> (Got (statusCode, totalRows), w'))"

text \<open>
  \<^verbatim>\<open>totalElements\<close>: up to five attempts one second apart, an attempt failing on a
  transport error or on a status other than 200; then the JSON body is decoded.
  \<open>None\<close> stands for the error return.
\<close>

definition totalElements :: "flags \<Rightarrow> probe_env \<Rightarrow> world \<Rightarrow> int option \<times> world" where
  "totalElements fl penv w =
     (case retry 5 1
             (\<lambda>v. case fetchTotalElements fl penv v of
                     (Got (statusCode, totalRows), v') \<Rightarrow>
                       if statusCode \<noteq> 200 then (Failed, v') else (Got totalRows, v')
                   | (Failed, v') \<Rightarrow> (Failed, v')
                   | (Panicked p, v') \<Rightarrow> (Panicked p, v')) w of
        (Got totalRows, w') \<Rightarrow> (totalRows, w')
      | (Failed, w') \<Rightarrow> (None, w')
      | (Panicked p, w') \<Rightarrow> (None, w'))"

text \<open>
  The state in which \<^verbatim>\<open>init\<close> starts: every package variable at its zero value
  (\<open>Resumer0\<close> is \<^verbatim>\<open>Resumer{}\<close>), the two files as they are on disk.
\<close>

definition Resumer0 :: Resumer where
  "Resumer0 = \<lparr>OutputFilename = [], chunkSize = 0, DoneElements = 0, TotalElements = 0,
                NoDetails = False\<rparr>"

definition boot :: "string option \<Rightarrow> sidecar_file option \<Rightarrow> world" where
  "boot f s =
     \<lparr>res = Resumer0,
      outputWriter = None, timeoutCount = 0, errorCount = 0,
      out_file = f, side_file = s, console = [], calls = 0, trace = []\<rparr>"

text \<open>
  \<^verbatim>\<open>init\<close> ends in one of three ways: \<^verbatim>\<open>os.Exit(0)\<close> after the usage text, a panic, or
  by returning. It returns at the end of its body, after \<^verbatim>\<open>res.chunkSize = 10000\<close>, and
  also from each of its \<^verbatim>\<open>return\<close> statements, which leave \<^verbatim>\<open>chunkSize\<close> at 0. A Go
  program calls \<^verbatim>\<open>main\<close> once \<^verbatim>\<open>init\<close> has returned, whichever way it returned.
\<close>

datatype booted = Exited world | Crashed panic world | Returned world

definition fresh :: "flags \<Rightarrow> int \<Rightarrow> world \<Rightarrow> world" where
  "fresh fl totalRows w =
     w\<lparr>res := (res w)\<lparr>TotalElements := totalRows, OutputFilename := outputPath fl,
                       NoDetails := noDetails fl\<rparr>\<rparr>"

definition set_chunkSize :: "world \<Rightarrow> world" where
  "set_chunkSize w = w\<lparr>res := (res w)\<lparr>chunkSize := 10000\<rparr>\<rparr>"

definition init :: "flags \<Rightarrow> probe_env \<Rightarrow> world \<Rightarrow> booted" where
  "init fl penv w =
     (if username fl = [] \<or> password fl = [] \<or> crawl fl = 0 then Exited w
      else if outputPath fl = [] then
        (case totalElements fl penv (w\<lparr>outputWriter := Some Stdout, res := Resumer0\<rparr>) of
           (None, w1) \<Rightarrow> Returned (say (Println ProbeFailed) w1)
         | (Some totalRows, w1) \<Rightarrow> Returned (set_chunkSize (fresh fl totalRows w1)))
      else
        let errOutput = (out_file w = None);
            errResumer = (side_file w = None);
            startAnew = (errOutput \<and> errResumer)
        in if noResume fl \<or> startAnew then
             (let w0 = (if startAnew \<and> \<not> noResume fl
                        then say (Println NoDownloadToResume) w else w)
              in if \<not> errOutput then Returned (say (Println FileAlreadyExists) w0)
                 else
                   (case totalElements fl penv (w0\<lparr>res := Resumer0\<rparr>) of
                      (None, w1) \<Rightarrow> Returned (say (Println ProbeFailed) w1)
                    | (Some totalRows, w1) \<Rightarrow>
                        Returned (set_chunkSize
                          ((PersistConfig fl (fresh fl totalRows w1))
                             \<lparr>out_file := Some [], outputWriter := Some OutputFile\<rparr>))))
           else if errOutput then Returned (say (Println CannotResumeNoOutput) w)
           else if errResumer then Returned (say (Println CannotResumeNoResumer) w)
           else
             (case side_file w of
                None \<Rightarrow> Returned (say (Println CannotResumeNoResumer) w)
              | Some Garbage \<Rightarrow> Crashed ResumerFileError w
              | Some (Json j) \<Rightarrow>
                  let w1 = w\<lparr>res := (res w)\<lparr>OutputFilename := j_outputFilename j,
                                              DoneElements := j_doneElements j,
                                              TotalElements := j_totalElements j,
                                              NoDetails := j_noDetails j\<rparr>,
                              outputWriter := Some OutputFile\<rparr>
                  in if NoDetails (res w1) \<noteq> noDetails fl
                     then Returned (say (Println (DetailsWarning (NoDetails (res w1)) (noDetails fl))) w1)
                     else Returned (set_chunkSize w1)))"

text \<open>The whole program: \<^verbatim>\<open>init\<close>, then \<^verbatim>\<open>main\<close> if \<^verbatim>\<open>init\<close> returned.\<close>

definition program ::
  "nat \<Rightarrow> flags \<Rightarrow> probe_env \<Rightarrow> env \<Rightarrow> string option \<Rightarrow> sidecar_file option \<Rightarrow> outcome \<times> world" where
  "program n fl penv env f s =
     (case init fl penv (boot f s) of
        Exited w \<Rightarrow> (Exit0, w)
      | Crashed p w \<Rightarrow> (Panic p, w)
      | Returned w \<Rightarrow> main_loop n fl env w)"

subsection \<open>The remote API\<close>

text \<open>
  Modelled from the spec: the remote API, which is not part of the repository. Where a
  statement needs a server that answers without errors, this is the pagination the
  specification describes: a chunk is one page of rows addressed by chunk index and
  chunk size, and every response starts with the header row. \<open>api hdr rows\<close> serves the
  data set \<open>rows\<close> under the header \<open>hdr\<close>: chunk \<open>n\<close> at chunk size \<open>c\<close> is the header
  followed by the rows \<open>n * c\<close> to \<open>n * c + c - 1\<close>, as far as they exist.
\<close>

definition api :: "string \<Rightarrow> string list \<Rightarrow> env" where
  "api hdr rows n rq =
     Reply 200 (hdr # take (nat (req_chunk_size rq))
                        (drop (nat (req_chunk rq) * nat (req_chunk_size rq)) rows)) False"

text \<open>The requests of a trace, in the order they were sent.\<close>

fun requests :: "event list \<Rightarrow> request list" where
  "requests [] = []"
| "requests (Fetch rq # es) = rq # requests es"
| "requests (e # es) = requests es"

section \<open>Notions used in the statements\<close>

text \<open>
  \<open>logged w w'\<close>: from \<open>w\<close> to \<open>w'\<close> only the error counter, the number of requests and
  the trace have changed, and the trace has grown by events other than the removal of
  the resumer file. This is all that fetching a chunk, with its retries, does to the
  state.
\<close>

definition logged :: "world \<Rightarrow> world \<Rightarrow> bool" where
  "logged w w' \<longleftrightarrow>
     res w' = res w \<and> outputWriter w' = outputWriter w \<and> timeoutCount w' = timeoutCount w \<and>
     out_file w' = out_file w \<and> side_file w' = side_file w \<and> console w' = console w \<and>
     (\<exists>evs. trace w' = trace w @ evs \<and> RemoveResumer \<notin> set evs)"

text \<open>Concrete inputs on which the statements below are evaluated.\<close>

definition flags0 :: flags where
  "flags0 = \<lparr>username = ''user'', password = ''secret'', crawl = 1, noDetails = False,
              outputPath = ''pages.tsv'', noResume = False\<rparr>"

definition world0 :: "int \<Rightarrow> int \<Rightarrow> int \<Rightarrow> int \<Rightarrow> world" where
  "world0 cs d t tc =
     \<lparr>res = \<lparr>OutputFilename = ''pages.tsv'', chunkSize = cs, DoneElements = d,
              TotalElements = t, NoDetails = False\<rparr>,
      outputWriter = Some OutputFile, timeoutCount = tc, errorCount = 0,
      out_file = Some [], side_file = None, console = [], calls = 0, trace = []\<rparr>"

definition always :: "int \<Rightarrow> string list \<Rightarrow> env" where
  "always st body n rq = Reply st body False"

text \<open>The request for chunk \<open>n\<close> at chunk size \<open>c\<close>, as \<^verbatim>\<open>nextChunk\<close> builds it.\<close>

definition tsv_request :: "flags \<Rightarrow> int \<Rightarrow> int \<Rightarrow> request" where
  "tsv_request fl n c =
     \<lparr>req_username = username fl, req_password = password fl, req_crawl = crawl fl,
      req_deep = (if noDetails fl then ''0'' else ''1''),
      req_chunk = n, req_chunk_size = c, req_output = Tsv\<rparr>"

text \<open>
  A resumer file left by a session that has not stored a row yet, a probe that never
  gets through, and the state a \<open>booted\<close> value carries.
\<close>

definition checkpoint0 :: sidecar where
  "checkpoint0 = \<lparr>j_outputFilename = ''pages.tsv'', j_doneElements = 0,
                   j_totalElements = 25000, j_noDetails = False\<rparr>"

definition no_probe :: probe_env where
  "no_probe n = ProbeTransportError"

fun world_of :: "booted \<Rightarrow> world" where
  "world_of (Exited w) = w"
| "world_of (Crashed p w) = w"
| "world_of (Returned w) = w"

text \<open>
  A resuming invocation with \<^verbatim>\<open>--no-details\<close> on a file begun without it, run for one
  pass of the loop against a server that answers with a header and one row.
\<close>

definition mismatch_run :: "outcome \<times> world" where
  "mismatch_run =
     program 1 (flags0\<lparr>noDetails := True\<rparr>) no_probe
       (always 200 [''url'', ''https://example.org/'']) (Some []) (Some (Json checkpoint0))"

text \<open>
  A resuming invocation on the resumer file that a session wrote after its chunk size
  had gone down to 5000.
\<close>

definition resumed_after_shrink :: booted where
  "resumed_after_shrink =
     init flags0 no_probe
       (boot (Some []) (side_file (PersistConfig flags0 (world0 5000 20000 25000 0))))"

text \<open>
  \<open>kept w w'\<close>: from \<open>w\<close> to \<open>w'\<close> the trace has grown by events other than the removal
  of the resumer file, and a resumer file that was there is still there.
\<close>

definition kept :: "world \<Rightarrow> world \<Rightarrow> bool" where
  "kept w w' \<longleftrightarrow>
     (\<exists>evs. trace w' = trace w @ evs \<and> RemoveResumer \<notin> set evs) \<and>
     (side_file w \<noteq> None \<longrightarrow> side_file w' \<noteq> None)"

text \<open>
  The invariants of the checkpoint that the specification states, and the typing of
  the \<^verbatim>\<open>int64\<close> fields that makes the arithmetic of the loop free of wrap-around when
  they hold.
\<close>

definition invariants :: "world \<Rightarrow> bool" where
  "invariants w \<longleftrightarrow>
     0 \<le> DoneElements (res w) \<and> DoneElements (res w) \<le> TotalElements (res w) \<and>
     0 < chunkSize (res w)"

definition int64_typed :: "world \<Rightarrow> bool" where
  "int64_typed w \<longleftrightarrow> TotalElements (res w) < 2 ^ 63 \<and> chunkSize (res w) < 2 ^ 63"

text \<open>
  A server is \<open>well_sized\<close> when a response whose body the loop goes on to scan (any
  status outside 400 to 599) to a request with a positive chunk size has at most that
  many lines after its first one.
\<close>

definition well_sized :: "env \<Rightarrow> bool" where
  "well_sized env \<longleftrightarrow>
     (\<forall>n rq st body e.
        env n rq = Reply st body e \<longrightarrow> \<not> (400 \<le> st \<and> st < 600) \<longrightarrow> 0 < req_chunk_size rq \<longrightarrow>
        int (length body) \<le> req_chunk_size rq + 1)"

definition sound :: "world \<Rightarrow> bool" where
  "sound w \<longleftrightarrow> invariants w \<and> int64_typed w"

text \<open>A session of \<open>flags0\<close> with its resumer file in place.\<close>

definition tracked :: "int \<Rightarrow> int \<Rightarrow> int \<Rightarrow> world" where
  "tracked cs d t =
     (world0 cs d t 0)\<lparr>side_file := Some (Json \<lparr>j_outputFilename = ''pages.tsv'',
        j_doneElements = d, j_totalElements = t, j_noDetails = False\<rparr>)\<rparr>"

text \<open>
  \<open>committed hdr rows d\<close> is the output file of a session that has stored the first \<open>d\<close>
  rows of the data set: empty before the first chunk, afterwards the header line and
  \<open>d\<close> row lines. A state is \<open>consistent\<close> with the data set when its output file is
  the committed one for its \<^verbatim>\<open>DoneElements\<close>, its resumer file is the one
  \<^verbatim>\<open>PersistConfig\<close> would write now, its counters are in range and its detail flag is
  that of the invocation.
\<close>

definition committed :: "string \<Rightarrow> string list \<Rightarrow> nat \<Rightarrow> string" where
  "committed hdr rows d = (if d = 0 then [] else render (hdr # take d rows))"

definition consistent :: "flags \<Rightarrow> string \<Rightarrow> string list \<Rightarrow> world \<Rightarrow> bool" where
  "consistent fl hdr rows w \<longleftrightarrow>
     outputPath fl \<noteq> [] \<and> outputWriter w = Some OutputFile \<and>
     NoDetails (res w) = noDetails fl \<and>
     TotalElements (res w) = int (length rows) \<and>
     0 \<le> DoneElements (res w) \<and> DoneElements (res w) \<le> TotalElements (res w) \<and>
     0 < chunkSize (res w) \<and> chunkSize (res w) < 2 ^ 63 \<and>
     out_file w = Some (committed hdr rows (nat (DoneElements (res w)))) \<and>
     side_file w = side_file (PersistConfig fl w)"

text \<open>
  The state in which a pass of the loop stands right after \<^verbatim>\<open>outputWriter.Flush()\<close>,
  and the state a two-row session is in when it is killed there in its first pass.
\<close>

fun stage_world :: "stage \<Rightarrow> world" where
  "stage_world (Finished oc w) = w"
| "stage_world (Again w) = w"
| "stage_world (Flushed e w) = w"

definition killed_after_flush :: world where
  "killed_after_flush = stage_world (transfer flags0 (api ''url'' [''a'', ''b'']) (tracked 10000 0 2))"

text \<open>
  Two invocations with \<^verbatim>\<open>--no-resume\<close> that find the resumer file of a session which
  has stored 5 of 10 rows: one with the output file of that session in place, one with
  the output file gone and a probe that never gets through.
\<close>

definition checkpoint_half :: sidecar where
  "checkpoint_half = \<lparr>j_outputFilename = ''pages.tsv'', j_doneElements = 5,
                       j_totalElements = 10, j_noDetails = False\<rparr>"

definition no_resume_on_existing_run :: "outcome \<times> world" where
  "no_resume_on_existing_run =
     program 1 (flags0\<lparr>noResume := True\<rparr>) no_probe (always 200 [])
       (Some (render [''url'', ''a'', ''b'', ''c'', ''d'', ''e''])) (Some (Json checkpoint_half))"

definition probe_exhausted_run :: "outcome \<times> world" where
  "probe_exhausted_run =
     program 1 (flags0\<lparr>noResume := True\<rparr>) no_probe (always 200 [])
       None (Some (Json checkpoint_half))"

section \<open>Rounding to \<^verbatim>\<open>float64\<close> is exact where the program needs it\<close>

lemma round_half_even_of_int: "round_half_even (of_int k) = k"
  by (simp add: round_half_even_def)

lemma round_half_even_ge_floor: "\<lfloor>y\<rfloor> \<le> round_half_even y"
  by (simp add: round_half_even_def Let_def)

lemma round_half_even_le: "of_int (round_half_even y) \<le> y + 1 / 2"
  unfolding round_half_even_def Let_def
  by (auto simp: not_less) linarith+

lemma bitlen_rat_bounds:
  assumes "0 < n"
  shows "power_int 2 (bitlen n - 1) \<le> (of_int n :: rat)" and "(of_int n :: rat) < power_int 2 (bitlen n)"
proof -
  have b1: "1 \<le> bitlen n" using assms bitlen_eq_zero_iff[of n] bitlen_nonneg[of n] by linarith
  from bitlen_bounds[OF assms] have lo: "2 ^ nat (bitlen n - 1) \<le> n" and hi: "n < 2 ^ nat (bitlen n)" by auto
  from lo have "(of_int (2 ^ nat (bitlen n - 1)) :: rat) \<le> of_int n" by (simp only: of_int_le_iff)
  then show "power_int 2 (bitlen n - 1) \<le> (of_int n :: rat)" using b1 by (simp add: power_int_def)
  from hi have "(of_int n :: rat) < of_int (2 ^ nat (bitlen n))" by (simp only: of_int_less_iff)
  then show "(of_int n :: rat) < power_int 2 (bitlen n)" using b1 by (simp add: power_int_def)
qed

lemma ilog2_bounds:
  assumes "0 < q"
  shows "power_int 2 (ilog2 q) \<le> q" and "q < power_int 2 (ilog2 q + 1)"
proof -
  obtain n d where nd: "quotient_of q = (n, d)" by force
  have d0: "0 < d" using quotient_of_denom_pos[OF nd] .
  have q: "q = of_int n / of_int d" using quotient_of_div[OF nd] .
  have n0: "0 < n" using assms d0 q by (simp add: zero_less_divide_iff)
  define e where "e = bitlen n - bitlen d"
  have il: "ilog2 q = (if (of_int d :: rat) * power_int 2 e \<le> of_int n then e else e - 1)"
    by (simp add: ilog2_def nd e_def)
  note bn = bitlen_rat_bounds[OF n0] and bd = bitlen_rat_bounds[OF d0]
  have dpos: "(0::rat) < of_int d" using d0 by simp
  have p2: "\<And>k. (0::rat) < power_int 2 k" by (simp add: zero_less_power_int)
  have split1: "power_int (2::rat) (bitlen n) = power_int 2 (e + 1) * power_int 2 (bitlen d - 1)"
    by (simp add: e_def flip: power_int_add)
  have split2: "power_int (2::rat) (bitlen n - 1) = power_int 2 (e - 1) * power_int 2 (bitlen d)"
    by (simp add: e_def flip: power_int_add)
  have up: "(of_int n :: rat) < power_int 2 (e + 1) * of_int d"
  proof -
    have "(of_int n :: rat) < power_int 2 (e + 1) * power_int 2 (bitlen d - 1)"
      using bn(2) split1 by simp
    also have "\<dots> \<le> power_int 2 (e + 1) * of_int d"
      using bd(1) p2[of "e + 1"] by (simp add: mult_left_mono)
    finally show ?thesis .
  qed
  have lo: "power_int 2 (e - 1) * of_int d \<le> (of_int n :: rat)"
  proof -
    have "power_int 2 (e - 1) * of_int d \<le> power_int 2 (e - 1) * power_int (2::rat) (bitlen d)"
      using bd(2) p2[of "e - 1"] by (simp add: mult_left_mono)
    also have "\<dots> \<le> of_int n" using bn(1) split2 by simp
    finally show ?thesis .
  qed
  have qlo: "power_int 2 (e - 1) \<le> q" using dpos lo by (simp add: q pos_le_divide_eq)
  have qup: "q < power_int 2 (e + 1)" using dpos up by (simp add: q pos_divide_less_eq)
  have qmid: "(of_int d :: rat) * power_int 2 e \<le> of_int n \<longleftrightarrow> power_int 2 e \<le> q"
    using dpos by (simp add: q pos_le_divide_eq mult.commute)
  show "power_int 2 (ilog2 q) \<le> q"
    unfolding il using qlo qmid by (simp split: if_splits)
  show "q < power_int 2 (ilog2 q + 1)"
    unfolding il using qup qmid by (simp split: if_splits)
qed

lemma ilog2_le:
  assumes "0 < q" and "q < power_int 2 k"
  shows "ilog2 q < k"
proof (rule ccontr)
  assume "\<not> ilog2 q < k"
  then have "k \<le> ilog2 q" by simp
  then have "power_int (2::rat) k \<le> power_int 2 (ilog2 q)"
    by (simp add: power_int_increasing)
  with ilog2_bounds(1)[OF assms(1)] assms(2) show False by simp
qed


lemma f64_round_pos:
  assumes "0 < q"
  shows "f64_round q = of_int (round_half_even (q / power_int 2 (ilog2 q - 52))) * power_int 2 (ilog2 q - 52)"
  using assms by (simp add: f64_round_def Let_def)

lemma f64_quo_floor:
  fixes d c :: int
  assumes c: "0 < c" and d: "0 < d" and dlt: "d < 2 ^ 53"
  shows "\<lfloor>f64_round (of_int d / of_int c)\<rfloor> = d div c"
proof -
  define q :: rat where "q = of_int d / of_int c"
  define k where "k = d div c"
  define E where "E = ilog2 q - 52"
  have cpos: "(0::rat) < of_int c" and dpos: "(0::rat) < of_int d" using c d by simp_all
  have q0: "0 < q" using c d by (simp add: q_def)
  have qle: "q \<le> of_int d"
  proof -
    have "(1::rat) \<le> of_int c" using c by simp
    then have "of_int d / of_int c \<le> (of_int d :: rat) / 1" using dpos
      by (intro divide_left_mono) simp_all
    then show ?thesis by (simp add: q_def)
  qed
  have "q < power_int 2 53"
  proof -
    have "(of_int d :: rat) < of_int (2 ^ 53)" using dlt by (simp only: of_int_less_iff)
    then show ?thesis using qle by (simp add: power_int_def)
  qed
  then have "ilog2 q < 53" using ilog2_le[OF q0] by simp
  then have E0: "E \<le> 0" by (simp add: E_def)
  define s :: int where "s = 2 ^ nat (- E)"
  have s0: "0 < s" by (simp add: s_def)
  have sE: "power_int (2::rat) E = 1 / of_int s"
    using E0 by (simp add: s_def power_int_def field_simps)
  define y where "y = q * of_int s"
  have yq: "q / power_int 2 E = y" by (simp add: sE y_def)
  define m where "m = round_half_even y"
  have res: "f64_round q = of_int m / of_int s"
  proof -
    have "f64_round q = of_int (round_half_even (q / power_int 2 E)) * power_int 2 E"
      using f64_round_pos[OF q0] by (simp only: E_def)
    also have "\<dots> = of_int m * power_int 2 E" by (simp only: yq m_def)
    finally show ?thesis by (simp add: sE)
  qed
  have ylo: "power_int 2 52 \<le> y"
  proof -
    have "power_int 2 (ilog2 q) \<le> q" using ilog2_bounds(1)[OF q0] .
    moreover have "power_int (2::rat) (ilog2 q) = power_int 2 52 * power_int 2 E"
    proof -
      have "power_int (2::rat) (52 + E) = power_int 2 52 * power_int 2 E"
        by (rule power_int_add) simp
      moreover have "52 + E = ilog2 q" by (simp add: E_def)
      ultimately show ?thesis by (simp only:)
    qed
    ultimately have "power_int 2 52 * (1 / of_int s) \<le> q" by (simp add: sE)
    then show ?thesis using s0 by (simp add: y_def pos_divide_le_eq)
  qed
  have kq: "of_int k \<le> q"
  proof -
    have "0 \<le> d mod c" using c by simp
    then have "k * c \<le> d" unfolding k_def using div_mult_mod_eq[of d c] by linarith
    then have "(of_int (k * c) :: rat) \<le> of_int d" by (simp only: of_int_le_iff)
    then show ?thesis using cpos by (simp add: q_def pos_le_divide_eq)
  qed
  have qk: "q \<le> of_int (k + 1) - 1 / of_int c"
  proof -
    have "d mod c < c" using c by simp
    moreover have "(k + 1) * c = d div c * c + c" by (simp add: k_def algebra_simps)
    ultimately have "d + 1 \<le> (k + 1) * c"
      using div_mult_mod_eq[of d c] by linarith
    then have "(of_int (d + 1) :: rat) \<le> of_int ((k + 1) * c)" by (simp only: of_int_le_iff)
    then show ?thesis using cpos by (simp add: q_def field_simps)
  qed
  have low: "k * s \<le> m"
  proof -
    have "of_int (k * s) \<le> y" using kq s0 by (simp add: y_def mult_right_mono)
    then have "k * s \<le> \<lfloor>y\<rfloor>" by (simp add: le_floor_iff)
    then show ?thesis using round_half_even_ge_floor[of y] by (simp add: m_def)
  qed
  have half: "1 / 2 < (of_int s :: rat) / of_int c"
  proof -
    have "power_int 2 52 * of_int c \<le> of_int d * (of_int s :: rat)"
      using ylo cpos by (simp add: y_def q_def pos_le_divide_eq field_simps)
    moreover have "(of_int d :: rat) * of_int s < power_int 2 53 * of_int s"
    proof -
      have "(of_int d :: rat) < of_int (2 ^ 53)" using dlt by (simp only: of_int_less_iff)
      then show ?thesis using s0 by (simp add: power_int_def)
    qed
    ultimately have "power_int 2 52 * of_int c < power_int 2 53 * (of_int s :: rat)" by linarith
    then have "(of_int c :: rat) < 2 * of_int s" by (simp add: power_int_def)
    then show ?thesis using cpos by (simp add: pos_less_divide_eq)
  qed
  have up: "m < (k + 1) * s"
  proof -
    have "y \<le> of_int ((k + 1) * s) - of_int s / of_int c"
    proof -
      have "q * of_int s \<le> (of_int (k + 1) - 1 / of_int c) * of_int s"
        using qk s0 by (intro mult_right_mono) simp_all
      then show ?thesis by (simp add: y_def algebra_simps)
    qed
    then have "y + 1 / 2 < of_int ((k + 1) * s)" using half by linarith
    then have "(of_int m :: rat) < of_int ((k + 1) * s)"
      using round_half_even_le[of y] unfolding m_def by linarith
    then show ?thesis by (simp only: of_int_less_iff)
  qed
  have "\<lfloor>(of_int m :: rat) / of_int s\<rfloor> = m div s" by (simp add: floor_divide_of_int_eq)
  also have "m div s = k"
  proof -
    have "m = s * k + (m - k * s)" by simp
    moreover have "0 \<le> m - k * s" using low by simp
    moreover have "m - k * s < s" using up by (simp add: algebra_simps)
    ultimately show ?thesis by (rule int_div_pos_eq)
  qed
  finally have "\<lfloor>f64_round q\<rfloor> = k" by (simp only: res)
  then show ?thesis by (simp only: q_def k_def)
qed


lemma ilog2_ge:
  assumes "0 < q" and "power_int 2 k \<le> q"
  shows "k \<le> ilog2 q"
proof (rule ccontr)
  assume "\<not> k \<le> ilog2 q"
  then have "ilog2 q + 1 \<le> k" by simp
  then have "power_int (2::rat) (ilog2 q + 1) \<le> power_int 2 k"
    by (simp add: power_int_increasing)
  with ilog2_bounds(2)[OF assms(1)] assms(2) show False by simp
qed

lemma f64_round_small_int:
  fixes x :: int
  assumes x: "0 < x" and lt: "x < 2 ^ 53"
  shows "f64_round (of_int x) = of_int x"
proof -
  define q :: rat where "q = of_int x"
  define E where "E = ilog2 q - 52"
  have q0: "0 < q" using x by (simp add: q_def)
  have "(of_int x :: rat) < of_int (2 ^ 53)" using lt by (simp only: of_int_less_iff)
  then have "q < power_int 2 53" by (simp add: q_def power_int_def)
  then have "ilog2 q < 53" using ilog2_le[OF q0] by simp
  then have E0: "E \<le> 0" by (simp add: E_def)
  define s :: int where "s = 2 ^ nat (- E)"
  have s0: "0 < s" by (simp add: s_def)
  have sE: "power_int (2::rat) E = 1 / of_int s"
    using E0 by (simp add: s_def power_int_def field_simps)
  have "q / power_int 2 E = of_int (x * s)" by (simp add: sE q_def)
  then have "round_half_even (q / power_int 2 E) = x * s"
    by (simp only: round_half_even_of_int)
  moreover have "f64_round q = of_int (round_half_even (q / power_int 2 E)) * power_int 2 E"
    using f64_round_pos[OF q0] by (simp only: E_def)
  ultimately have "f64_round q = of_int (x * s) * (1 / of_int s)" by (simp only: sE)
  also have "\<dots> = of_int x" using s0 by simp
  finally show ?thesis by (simp only: q_def)
qed

lemma f64_round_large_int:
  fixes x :: int
  assumes ge: "2 ^ 53 \<le> x"
  shows "\<exists>c. f64_round (of_int x) = of_int c \<and> 2 ^ 53 \<le> c"
proof -
  define q :: rat where "q = of_int x"
  define E where "E = ilog2 q - 52"
  have "(of_int (2 ^ 53) :: rat) \<le> of_int x" using ge by (simp only: of_int_le_iff)
  then have q53: "power_int 2 53 \<le> q" by (simp add: q_def power_int_def)
  then have q0: "0 < q" by (simp add: power_int_def)
  have "53 \<le> ilog2 q" using ilog2_ge[OF q0 q53] .
  then have E1: "1 \<le> E" by (simp add: E_def)
  define t :: int where "t = 2 ^ nat E"
  have t2: "2 \<le> t"
  proof -
    have "(2::int) ^ 1 \<le> 2 ^ nat E" using E1 by (intro power_increasing) simp_all
    then show ?thesis by (simp add: t_def)
  qed
  have tE: "power_int (2::rat) E = of_int t" using E1 by (simp add: t_def power_int_def)
  define m where "m = round_half_even (q / power_int 2 E)"
  have res: "f64_round q = of_int (m * t)"
  proof -
    have "f64_round q = of_int (round_half_even (q / power_int 2 E)) * power_int 2 E"
      using f64_round_pos[OF q0] by (simp only: E_def)
    also have "\<dots> = of_int m * of_int t" by (simp only: m_def tE)
    finally show ?thesis by simp
  qed
  have "power_int (2::rat) (52 + E) = power_int 2 52 * power_int 2 E"
    by (rule power_int_add) simp
  moreover have "52 + E = ilog2 q" by (simp add: E_def)
  ultimately have "power_int (2::rat) (ilog2 q) = power_int 2 52 * power_int 2 E" by (simp only:)
  then have "power_int 2 52 * power_int 2 E \<le> q" using ilog2_bounds(1)[OF q0] by simp
  then have "power_int 2 52 \<le> q / power_int 2 E"
    by (simp add: pos_le_divide_eq zero_less_power_int)
  then have "(of_int (2 ^ 52) :: rat) \<le> q / power_int 2 E" by (simp add: power_int_def)
  then have "2 ^ 52 \<le> \<lfloor>q / power_int 2 E\<rfloor>" by (simp only: le_floor_iff)
  then have m52: "2 ^ 52 \<le> m" using round_half_even_ge_floor[of "q / power_int 2 E"]
    unfolding m_def by linarith
  have "(2::int) ^ 52 * 2 \<le> m * t" using m52 t2 by (intro mult_mono) simp_all
  then have "2 ^ 53 \<le> m * t" by simp
  with res show ?thesis unfolding q_def by blast
qed

lemma i64_id: "- (2 ^ 63) \<le> x \<Longrightarrow> x < 2 ^ 63 \<Longrightarrow> i64 x = x"
  unfolding i64_def by (rule signed_take_bit_int_eq_self) simp_all

lemma go_rem_pos: "0 \<le> a \<Longrightarrow> 0 < b \<Longrightarrow> go_rem a b = a mod b"
  by (simp add: go_rem_def signed_modulo_int_def sgn_if)

lemma trunc_rat_of_int: "trunc_rat (of_int k) = k"
  by (simp add: trunc_rat_def)

lemma nextChunkNumber_exact:
  assumes d: "0 < DoneElements r" and dlt: "DoneElements r < 2 ^ 53" and c: "0 < chunkSize r"
  shows "nextChunkNumber r = Inr (DoneElements r div chunkSize r, DoneElements r mod chunkSize r)"
proof -
  let ?d = "DoneElements r" and ?c = "chunkSize r"
  have fd: "f64_of_int64 ?d = of_int ?d"
    unfolding f64_of_int64_def using d dlt by (rule f64_round_small_int)
  have quo: "\<lfloor>f64_quo (f64_of_int64 ?d) (f64_of_int64 ?c)\<rfloor> = ?d div ?c"
  proof (cases "?c < 2 ^ 53")
    case True
    then have "f64_of_int64 ?c = of_int ?c"
      unfolding f64_of_int64_def using c by (intro f64_round_small_int)
    then show ?thesis unfolding f64_quo_def fd using f64_quo_floor[OF c d dlt] by simp
  next
    case False
    then have "2 ^ 53 \<le> ?c" by simp
    from f64_round_large_int[OF this] obtain c' where
      c': "f64_of_int64 ?c = of_int c'" "2 ^ 53 \<le> c'" unfolding f64_of_int64_def by blast
    have c'0: "0 < c'" using c'(2) by simp
    have "\<lfloor>f64_round (of_int ?d / of_int c')\<rfloor> = ?d div c'" using f64_quo_floor[OF c'0 d dlt] .
    moreover have "?d div c' = 0" using d dlt c'(2) by (simp add: div_pos_pos_trivial)
    moreover have "?d div ?c = 0" using d dlt False by (simp add: div_pos_pos_trivial)
    ultimately show ?thesis unfolding f64_quo_def fd c'(1) by simp
  qed
  have nonneg: "0 \<le> f64_quo (f64_of_int64 ?d) (f64_of_int64 ?c)"
  proof (rule ccontr)
    assume "\<not> ?thesis"
    then have "\<lfloor>f64_quo (f64_of_int64 ?d) (f64_of_int64 ?c)\<rfloor> < 0" by (simp add: floor_less_iff)
    moreover have "0 \<le> ?d div ?c" using d c by (simp add: pos_imp_zdiv_nonneg_iff)
    ultimately show False using quo by simp
  qed
  have tr: "trunc_rat (f64_quo (f64_of_int64 ?d) (f64_of_int64 ?c)) = ?d div ?c"
    using nonneg quo by (simp add: trunc_rat_def)
  have rng: "0 \<le> ?d div ?c" "?d div ?c < 2 ^ 63"
  proof -
    show "0 \<le> ?d div ?c" using d c by (simp add: pos_imp_zdiv_nonneg_iff)
    have "?d div ?c \<le> ?d div 1" using d c by (intro zdiv_mono2) simp_all
    then show "?d div ?c < 2 ^ 63" using dlt by simp
  qed
  have "int64_of_f64 (modf_int (f64_quo (f64_of_int64 ?d) (f64_of_int64 ?c))) = ?d div ?c"
    unfolding int64_of_f64_def modf_int_def tr trunc_rat_of_int using rng by (intro i64_id) simp_all
  moreover have "go_rem ?d ?c = ?d mod ?c" using d c by (simp add: go_rem_pos)
  ultimately show ?thesis using d c by (simp add: nextChunkNumber_def Let_def)
qed

section \<open>What fetching a chunk does to the state\<close>

lemma logged_trans: "logged a b \<Longrightarrow> logged b c \<Longrightarrow> logged a c"
  unfolding logged_def by auto

lemma logged_fields:
  assumes "logged w w'"
  shows "res w' = res w" "outputWriter w' = outputWriter w" "timeoutCount w' = timeoutCount w"
    "out_file w' = out_file w" "side_file w' = side_file w" "console w' = console w"
  using assms unfolding logged_def by auto

lemma nextChunk_cases:
  assumes "nextChunk fl env w = (r, w')"
  shows "logged w w'"
    and "r = Panicked p \<Longrightarrow> chunk_request fl (res w) = Inl p"
    and "r = Got (st, body, e, sk) \<Longrightarrow>
           \<exists>rq. chunk_request fl (res w) = Inr (rq, sk) \<and> (\<exists>k. env k rq = Reply st body e)"
proof -
  show "logged w w'"
    using assms unfolding nextChunk_def fetchRawChunk_def logged_def
    by (auto split: sum.splits prod.splits response.splits)
  show "r = Panicked p \<Longrightarrow> chunk_request fl (res w) = Inl p"
    using assms unfolding nextChunk_def fetchRawChunk_def
    by (auto split: sum.splits prod.splits response.splits)
  show "r = Got (st, body, e, sk) \<Longrightarrow>
           \<exists>rq. chunk_request fl (res w) = Inr (rq, sk) \<and> (\<exists>k. env k rq = Reply st body e)"
    using assms unfolding nextChunk_def fetchRawChunk_def
    by (auto split: sum.splits prod.splits response.splits)
qed

lemma logged_sleep:
  "logged w w' \<Longrightarrow> logged w (w'\<lparr>errorCount := errorCount w' + 1, trace := trace w' @ [Sleep s]\<rparr>)"
  unfolding logged_def by auto

lemma retry_loop_nextChunk:
  assumes "retry_loop n s (nextChunk fl env) w = (r, w')"
  shows "logged w w' \<and>
         (\<forall>p. r = Panicked p \<longrightarrow> chunk_request fl (res w) = Inl p) \<and>
         (\<forall>st body e sk. r = Got (st, body, e, sk) \<longrightarrow>
            (\<exists>rq. chunk_request fl (res w) = Inr (rq, sk) \<and> (\<exists>k. env k rq = Reply st body e)))"
  using assms
proof (induction n arbitrary: w)
  case 0
  then have nc: "nextChunk fl env w = (r, w')" by simp
  show ?case using nextChunk_cases[OF nc] by blast
next
  case (Suc n)
  obtain r1 w1 where nc: "nextChunk fl env w = (r1, w1)" by force
  show ?case
  proof (cases "r1 = Failed")
    case True
    let ?w2 = "w1\<lparr>errorCount := errorCount w1 + 1, trace := trace w1 @ [Sleep s]\<rparr>"
    from Suc.prems nc True have rec: "retry_loop n s (nextChunk fl env) ?w2 = (r, w')" by simp
    have l1: "logged w ?w2" using nextChunk_cases(1)[OF nc] by (rule logged_sleep)
    have r2: "res ?w2 = res w" using logged_fields(1)[OF l1] .
    from Suc.IH[OF rec] show ?thesis unfolding r2 using logged_trans[OF l1] by blast
  next
    case False
    with Suc.prems nc have "r = r1" "w' = w1" by (auto split: attempt.splits)
    then show ?thesis using nextChunk_cases[OF nc] by blast
  qed
qed

lemma retry_nextChunk:
  assumes "retry a s (nextChunk fl env) w = (r, w')"
  shows "logged w w'"
    and "r = Panicked p \<Longrightarrow> chunk_request fl (res w) = Inl p"
    and "r = Got (st, body, e, sk) \<Longrightarrow>
           \<exists>rq. chunk_request fl (res w) = Inr (rq, sk) \<and> (\<exists>k. env k rq = Reply st body e)"
  using retry_loop_nextChunk[OF assms[unfolded retry_def]] by blast+

lemma iteration_got:
  assumes "DoneElements (res w) \<noteq> TotalElements (res w)"
    and "retry 5 10 (nextChunk fl env) (clamp w) = (Got got, w2)"
  shows "iteration fl env w =
           (case classify got w2 of
              Finished oc w' \<Rightarrow> (Some oc, w') | Again w' \<Rightarrow> (None, w')
            | Flushed scanErr w' \<Rightarrow> commit fl scanErr w')"
  using assms by (simp add: iteration_def transfer_def)

lemma clamp_res: "res (clamp w) = res (clamp (w\<lparr>errorCount := a, calls := b, trace := c\<rparr>))"
  by (simp add: clamp_def Let_def)

lemma clamp_idem: "res w' = res (clamp w) \<Longrightarrow> res (clamp w') = res (clamp w)"
  by (simp add: clamp_def Let_def)

lemma shrink_fields:
  "DoneElements (res (shrink w)) = DoneElements (res w)"
  "TotalElements (res (shrink w)) = TotalElements (res w)"
  "trace (shrink w) = trace w" "errorCount (shrink w) = errorCount w"
  "out_file (shrink w) = out_file w" "side_file (shrink w) = side_file w"
  "outputWriter (shrink w) = outputWriter w" "console (shrink w) = console w"
  by (simp_all add: shrink_def Let_def)

section \<open>The chunk address\<close>

text \<open>
  Below \<open>2\<^sup>5\<^sup>3\<close> rows the detour through \<^verbatim>\<open>float64\<close> is exact: the request is for
  chunk \<open>DoneElements div chunkSize\<close>, and \<open>DoneElements mod chunkSize + 1\<close> rows are
  skipped.
\<close>

lemma chunk_request_start:
  "DoneElements r = 0 \<Longrightarrow> chunk_request fl r = Inr (tsv_request fl 0 (chunkSize r), 0)"
  by (simp add: chunk_request_def nextChunkNumber_def tsv_request_def)

lemma chunk_request_exact:
  assumes "0 < DoneElements r" and "DoneElements r < 2 ^ 53"
    and "0 < chunkSize r" and "chunkSize r < 2 ^ 63"
  shows "chunk_request fl r =
     Inr (tsv_request fl (DoneElements r div chunkSize r) (chunkSize r),
          DoneElements r mod chunkSize r + 1)"
proof -
  have "DoneElements r mod chunkSize r < chunkSize r" "0 \<le> DoneElements r mod chunkSize r"
    using assms(3) by simp_all
  then have "i64 (DoneElements r mod chunkSize r + 1) = DoneElements r mod chunkSize r + 1"
    using assms(4) by (intro i64_id) simp_all
  then show ?thesis
    using nextChunkNumber_exact[OF assms(1,2,3)] assms(1)
    by (simp add: chunk_request_def tsv_request_def)
qed

section \<open>A pass of the loop against the paginating server\<close>

lemma retry_loop_first:
  "callback w = (Got x, w') \<Longrightarrow> retry_loop n s callback w = (Got x, w')"
  by (cases n) simp_all

lemma retry_first:
  "callback w = (Got x, w') \<Longrightarrow> retry a s callback w = (Got x, w')"
  by (simp add: retry_def retry_loop_first)

lemma render_append: "render (xs @ ys) = render xs @ render ys"
  by (simp add: render_def)

lemma drop_header_window:
  assumes "0 < c" and "0 \<le> d"
  shows "drop (nat (d mod c + 1)) (hdr # take (nat c) (drop (nat (d div c) * nat c) rows)) =
         take (nat (c - d mod c)) (drop (nat d) rows)"
proof -
  have m: "0 \<le> d mod c" "d mod c < c" using assms(1) by simp_all
  have q: "0 \<le> d div c" using assms by (simp add: pos_imp_zdiv_nonneg_iff)
  have "nat (d mod c + 1) = Suc (nat (d mod c))" using m by (simp add: nat_add_distrib)
  then have "drop (nat (d mod c + 1)) (hdr # take (nat c) (drop (nat (d div c) * nat c) rows)) =
        drop (nat (d mod c)) (take (nat c) (drop (nat (d div c) * nat c) rows))" by simp
  also have "\<dots> = take (nat c - nat (d mod c)) (drop (nat (d mod c) + nat (d div c) * nat c) rows)"
    by (simp add: drop_take)
  also have "nat c - nat (d mod c) = nat (c - d mod c)" using m by (simp add: nat_diff_distrib)
  also have "nat (d mod c) + nat (d div c) * nat c = nat d"
  proof -
    have "nat (d div c) * nat c = nat (d div c * c)" using q assms(1) by (simp add: nat_mult_distrib)
    moreover have "0 \<le> d div c * c" using q assms(1) by simp
    moreover have "d mod c + d div c * c = d" by simp
    ultimately show ?thesis using m by (metis nat_add_distrib)
  qed
  finally show ?thesis .
qed

text \<open>
  One pass against \<open>api hdr rows\<close>, from a state with rows left to fetch: the chunk size
  is cut down to the rows that remain, one request is sent, and the rows appended are
  exactly the next \<open>k\<close> rows of the data set, those from row \<open>DoneElements\<close> on: the
  chunk address locates row \<open>DoneElements\<close> in the page it asks for.
\<close>

lemma iteration_api:
  assumes ow: "outputWriter w = Some s"
    and T: "TotalElements (res w) = int (length rows)" and small: "length rows < 2 ^ 53"
    and D0: "0 \<le> DoneElements (res w)" and DT: "DoneElements (res w) < TotalElements (res w)"
    and c0: "0 < chunkSize (res w)" and c63: "chunkSize (res w) < 2 ^ 63"
    and c: "c = min (chunkSize (res w)) (TotalElements (res w) - DoneElements (res w))"
    and k: "k = c - DoneElements (res w) mod c"
  shows "\<exists>w'. iteration fl (api hdr rows) w = (None, w') \<and>
      res w' = (res w)\<lparr>chunkSize := c, DoneElements := DoneElements (res w) + k\<rparr> \<and>
      outputWriter w' = Some s \<and> timeoutCount w' = timeoutCount w \<and>
      errorCount w' = errorCount w \<and> calls w' = calls w + 1 \<and>
      trace w' = trace w @ [Fetch (tsv_request fl (DoneElements (res w) div c) c)] \<and>
      (s = OutputFile \<longrightarrow>
         out_file w' =
           Some ((case out_file w of None \<Rightarrow> [] | Some old \<Rightarrow> old) @
                 render ((if DoneElements (res w) = 0 then [hdr] else []) @
                         take (nat k) (drop (nat (DoneElements (res w))) rows)))) \<and>
      side_file w' = side_file (PersistConfig fl w')"
proof -
  let ?D = "DoneElements (res w)" and ?T = "TotalElements (res w)"
  let ?rq = "tsv_request fl (?D div c) c"
  have T53: "?T < 2 ^ 53" using T small by simp
  have rem: "i64 (?T - ?D) = ?T - ?D" using D0 DT T53 by (intro i64_id) simp_all
  have cpos: "0 < c" "c < 2 ^ 63" "c \<le> ?T - ?D" using c c0 c63 DT by simp_all
  have rc: "res (clamp w) = (res w)\<lparr>chunkSize := c\<rparr>"
    by (auto simp: clamp_def Let_def rem c min_def)
  have cw: "calls (clamp w) = calls w" "trace (clamp w) = trace w" "outputWriter (clamp w) = outputWriter w"
    "timeoutCount (clamp w) = timeoutCount w" "errorCount (clamp w) = errorCount w"
    "out_file (clamp w) = out_file w" "side_file (clamp w) = side_file w" "console (clamp w) = console w"
    by (simp_all add: clamp_def Let_def)
  define sk where "sk = (if ?D = 0 then 0 else ?D mod c + 1)"
  have cr: "chunk_request fl (res (clamp w)) = Inr (?rq, sk)"
  proof (cases "?D = 0")
    case True
    then show ?thesis unfolding rc sk_def by (simp add: chunk_request_start)
  next
    case False
    then have "0 < ?D" using D0 by simp
    moreover have "?D < 2 ^ 53" using DT T53 by simp
    ultimately show ?thesis unfolding rc sk_def using cpos False
      by (simp add: chunk_request_exact)
  qed
  define body where "body = hdr # take (nat c) (drop (nat (?D div c) * nat c) rows)"
  define w2 where "w2 = (clamp w)\<lparr>calls := calls w + 1, trace := trace w @ [Fetch ?rq]\<rparr>"
  have nc: "nextChunk fl (api hdr rows) (clamp w) = (Got (200, body, False, sk), w2)"
    by (simp add: nextChunk_def cr fetchRawChunk_def api_def body_def w2_def cw tsv_request_def)
  have rt: "retry 5 10 (nextChunk fl (api hdr rows)) (clamp w) = (Got (200, body, False, sk), w2)"
    using nc by (rule retry_first)
  have w2f: "res w2 = (res w)\<lparr>chunkSize := c\<rparr>" "outputWriter w2 = Some s"
    "timeoutCount w2 = timeoutCount w" "errorCount w2 = errorCount w" "calls w2 = calls w + 1"
    "trace w2 = trace w @ [Fetch ?rq]" "out_file w2 = out_file w" "side_file w2 = side_file w"
    by (simp_all add: w2_def rc cw ow)
  define new where "new = take (nat k) (drop (nat ?D) rows)"
  have rows_eq: "drop (nat sk) (if ?D = 0 then drop 1 body else body) = new"
  proof (cases "?D = 0")
    case True
    then show ?thesis by (simp add: sk_def body_def new_def k)
  next
    case False
    then show ?thesis unfolding sk_def body_def new_def k
      using drop_header_window[OF cpos(1) D0] by simp
  qed
  have kpos: "0 < k" "k \<le> c" using cpos(1) k by (simp_all add: pos_mod_bound)
  have len: "int (length new) = k"
  proof -
    have "k \<le> ?T - ?D" using kpos cpos by simp
    then have "nat k \<le> length rows - nat ?D" using T D0 by linarith
    then show ?thesis using kpos by (simp add: new_def min_def)
  qed
  have wrap: "i64 (?D + k) = ?D + k" using D0 kpos cpos T53 by (intro i64_id) simp_all
  define first where "first = (if ?D = 0 then [hdr] else [])"
  have first_eq: "(if ?D = 0 then [case body of [] \<Rightarrow> [] | l # _ \<Rightarrow> l] else []) = first"
    by (simp add: first_def body_def)
  define w3 where "w3 = flush_to s (render (first @ new)) (w2\<lparr>res := (res w2)\<lparr>DoneElements := ?D + k\<rparr>\<rparr>)"
  have wr: "write_rows body sk w2 = Inr w3"
    unfolding write_rows_def w2f(2) Let_def w2f(1)
    by (simp add: rows_eq first_eq len wrap w3_def w2f(1))
  have cl: "classify (200, body, False, sk) w2 = Flushed False w3"
    by (simp add: classify_def wr)
  have ne: "?D \<noteq> ?T" using DT by simp
  have it: "iteration fl (api hdr rows) w = (None, PersistConfig fl w3)"
    using iteration_got[OF ne rt] by (simp add: cl commit_def)
  have w3f: "res w3 = (res w)\<lparr>chunkSize := c, DoneElements := ?D + k\<rparr>" "outputWriter w3 = Some s"
    "timeoutCount w3 = timeoutCount w" "errorCount w3 = errorCount w" "calls w3 = calls w + 1"
    "trace w3 = trace w @ [Fetch ?rq]"
    by (simp_all add: w3_def flush_to_def w2f split: sink.splits)
  have w3o: "s = OutputFile \<longrightarrow> out_file w3 =
       Some ((case out_file w of None \<Rightarrow> [] | Some old \<Rightarrow> old) @ render (first @ new))"
    by (auto simp: w3_def flush_to_def w2f split: option.splits)
  have pf: "res (PersistConfig fl w3) = res w3" "outputWriter (PersistConfig fl w3) = outputWriter w3"
    "timeoutCount (PersistConfig fl w3) = timeoutCount w3" "errorCount (PersistConfig fl w3) = errorCount w3"
    "calls (PersistConfig fl w3) = calls w3" "trace (PersistConfig fl w3) = trace w3"
    "out_file (PersistConfig fl w3) = out_file w3"
    "side_file (PersistConfig fl w3) = side_file (PersistConfig fl (PersistConfig fl w3))"
    by (simp_all add: PersistConfig_def)
  show ?thesis
    apply (rule exI[of _ "PersistConfig fl w3"])
    using it w3o pf(8) by (simp add: pf(1-7) w3f first_def new_def)
qed

lemma requests_append: "requests (xs @ ys) = requests xs @ requests ys"
  by (induction xs rule: requests.induct) simp_all

lemma iteration_completed_at_total:
  assumes "DoneElements (res w) = TotalElements (res w)"
  shows "iteration fl env w =
           (Some Completed,
            if outputPath fl \<noteq> []
            then (say RemoveResumer (say StatusCompleted w))\<lparr>side_file := None\<rparr>
            else say StatusCompleted w)"
  using assms by (simp add: iteration_def transfer_def)

lemma run_25000:
  assumes ow: "outputWriter w = Some s"
    and D: "DoneElements (res w) = 0" and T: "TotalElements (res w) = 25000"
    and C: "chunkSize (res w) = 10000" and len: "length rows = 25000"
  shows "\<exists>w'. main_loop 4 fl (api hdr rows) w = (Completed, w') \<and>
           requests (trace w') =
             requests (trace w) @
               [tsv_request fl 0 10000, tsv_request fl 1 10000, tsv_request fl 4 5000] \<and>
           chunkSize (res w') = 5000 \<and> DoneElements (res w') = 25000"
proof -
  let ?env = "api hdr rows"
  have small: "length rows < 2 ^ 53" using len by simp
  have Tl: "TotalElements (res w) = int (length rows)" using T len by simp
  have D0: "0 \<le> DoneElements (res w)" and DT: "DoneElements (res w) < TotalElements (res w)"
    and c0: "0 < chunkSize (res w)" and c63: "chunkSize (res w) < 2 ^ 63"
    and c: "10000 = min (chunkSize (res w)) (TotalElements (res w) - DoneElements (res w))"
    and k: "(10000::int) = 10000 - DoneElements (res w) mod 10000"
    by (simp_all add: D T C)
  from iteration_api[OF ow Tl small D0 DT c0 c63 c k, of fl hdr] obtain w1 where
    i1: "iteration fl ?env w = (None, w1)"
    and r1: "res w1 = (res w)\<lparr>chunkSize := 10000, DoneElements := DoneElements (res w) + 10000\<rparr>"
    and o1: "outputWriter w1 = Some s"
    and t1: "trace w1 = trace w @ [Fetch (tsv_request fl (DoneElements (res w) div 10000) 10000)]"
    by blast
  have f1: "DoneElements (res w1) = 10000" "TotalElements (res w1) = 25000" "chunkSize (res w1) = 10000"
    using r1 D T by simp_all
  have Tl1: "TotalElements (res w1) = int (length rows)" using f1 len by simp
  have D01: "0 \<le> DoneElements (res w1)" and DT1: "DoneElements (res w1) < TotalElements (res w1)"
    and c01: "0 < chunkSize (res w1)" and c631: "chunkSize (res w1) < 2 ^ 63"
    and c1: "10000 = min (chunkSize (res w1)) (TotalElements (res w1) - DoneElements (res w1))"
    and k1: "(10000::int) = 10000 - DoneElements (res w1) mod 10000"
    by (simp_all add: f1)
  from iteration_api[OF o1 Tl1 small D01 DT1 c01 c631 c1 k1, of fl hdr] obtain w2 where
    i2: "iteration fl ?env w1 = (None, w2)"
    and r2: "res w2 = (res w1)\<lparr>chunkSize := 10000, DoneElements := DoneElements (res w1) + 10000\<rparr>"
    and o2: "outputWriter w2 = Some s"
    and t2: "trace w2 = trace w1 @ [Fetch (tsv_request fl (DoneElements (res w1) div 10000) 10000)]"
    by blast
  have f2: "DoneElements (res w2) = 20000" "TotalElements (res w2) = 25000" "chunkSize (res w2) = 10000"
    using r2 f1 by simp_all
  have Tl2: "TotalElements (res w2) = int (length rows)" using f2 len by simp
  have D02: "0 \<le> DoneElements (res w2)" and DT2: "DoneElements (res w2) < TotalElements (res w2)"
    and c02: "0 < chunkSize (res w2)" and c632: "chunkSize (res w2) < 2 ^ 63"
    and c2: "5000 = min (chunkSize (res w2)) (TotalElements (res w2) - DoneElements (res w2))"
    and k2: "(5000::int) = 5000 - DoneElements (res w2) mod 5000"
    by (simp_all add: f2)
  from iteration_api[OF o2 Tl2 small D02 DT2 c02 c632 c2 k2, of fl hdr] obtain w3 where
    i3: "iteration fl ?env w2 = (None, w3)"
    and r3: "res w3 = (res w2)\<lparr>chunkSize := 5000, DoneElements := DoneElements (res w2) + 5000\<rparr>"
    and t3: "trace w3 = trace w2 @ [Fetch (tsv_request fl (DoneElements (res w2) div 5000) 5000)]"
    by blast
  have f3: "DoneElements (res w3) = 25000" "TotalElements (res w3) = 25000" "chunkSize (res w3) = 5000"
    using r3 f2 by simp_all
  define w4 where "w4 = (if outputPath fl \<noteq> []
            then (say RemoveResumer (say StatusCompleted w3))\<lparr>side_file := None\<rparr>
            else say StatusCompleted w3)"
  have i4: "iteration fl ?env w3 = (Some Completed, w4)"
    unfolding w4_def by (rule iteration_completed_at_total) (simp add: f3)
  have r4: "res w4 = res w3" and t4: "requests (trace w4) = requests (trace w3)"
    by (simp_all add: w4_def say_def requests_append)
  have "main_loop 4 fl ?env w = (Completed, w4)"
    by (simp add: numeral_eq_Suc i1 i2 i3 i4)
  moreover have "requests (trace w4) = requests (trace w) @
               [tsv_request fl 0 10000, tsv_request fl 1 10000, tsv_request fl 4 5000]"
    unfolding t4 t3 t2 t1 by (simp add: requests_append D f1 f2)
  ultimately show ?thesis using r4 f3 by auto
qed

text \<open>
  Resuming with a different detail flag: when rows are already stored, \<^verbatim>\<open>main\<close> runs
  with the chunk size 0 that the early \<^verbatim>\<open>return\<close> of \<^verbatim>\<open>init\<close> left behind and panics on
  the remainder by zero, before any request and with both files as they were.
\<close>

lemma mismatch_panics_after_rows:
  assumes "username fl \<noteq> []" and "password fl \<noteq> []" and "crawl fl \<noteq> 0"
    and "outputPath fl \<noteq> []" and "\<not> noResume fl"
    and "j_noDetails j \<noteq> noDetails fl"
    and "0 < j_doneElements j" and "j_doneElements j < j_totalElements j"
    and "j_totalElements j < 2 ^ 63"
  shows "\<exists>w'. program (Suc n) fl penv env (Some f) (Some (Json j)) = (Panic DivideByZero, w') \<and>
           calls w' = 0 \<and> out_file w' = Some f \<and> side_file w' = Some (Json j)"
proof -
  define w1 where "w1 = say (Println (DetailsWarning (j_noDetails j) (noDetails fl)))
     ((boot (Some f) (Some (Json j)))\<lparr>res := Resumer0\<lparr>OutputFilename := j_outputFilename j,
                                              DoneElements := j_doneElements j,
                                              TotalElements := j_totalElements j,
                                              NoDetails := j_noDetails j\<rparr>,
                              outputWriter := Some OutputFile\<rparr>)"
  have ini: "init fl penv (boot (Some f) (Some (Json j))) = Returned w1"
    using assms(1-6) by (simp add: init_def boot_def Let_def w1_def)
  have r1: "res w1 = Resumer0\<lparr>OutputFilename := j_outputFilename j,
                                              DoneElements := j_doneElements j,
                                              TotalElements := j_totalElements j,
                                              NoDetails := j_noDetails j\<rparr>"
    by (simp add: w1_def say_def boot_def)
  have rem: "i64 (j_totalElements j - j_doneElements j) = j_totalElements j - j_doneElements j"
    using assms(7-9) by (intro i64_id) simp_all
  have cl: "clamp w1 = w1" using assms(7,8) by (simp add: clamp_def Let_def r1 rem Resumer0_def)
  have cr: "chunk_request fl (res w1) = Inl DivideByZero"
    using assms(7) by (simp add: chunk_request_def nextChunkNumber_def r1 Resumer0_def)
  have nc: "nextChunk fl env w1 = (Panicked DivideByZero, w1)" by (simp add: nextChunk_def cr)
  have rt: "retry 5 10 (nextChunk fl env) w1 = (Panicked DivideByZero, w1)"
    by (simp add: retry_def numeral_eq_Suc nc)
  have it: "iteration fl env w1 = (Some (Panic DivideByZero), w1)"
    using assms(8) by (simp add: iteration_def transfer_def cl rt r1)
  have "program (Suc n) fl penv env (Some f) (Some (Json j)) = (Panic DivideByZero, w1)"
    by (simp add: program_def ini it)
  moreover have "calls w1 = 0" "out_file w1 = Some f" "side_file w1 = Some (Json j)"
    by (simp_all add: w1_def say_def boot_def)
  ultimately show ?thesis by blast
qed

section \<open>The resumer file along the loop\<close>

lemma kept_refl: "kept w w"
  by (simp add: kept_def)

lemma kept_trans: "kept a b \<Longrightarrow> kept b c \<Longrightarrow> kept a c"
  unfolding kept_def by auto

lemma logged_kept: "logged w w' \<Longrightarrow> kept w w'"
  unfolding logged_def kept_def by auto

lemma kept_clamp: "kept w (clamp w)"
  by (simp add: kept_def clamp_def Let_def)

lemma kept_say: "e \<noteq> RemoveResumer \<Longrightarrow> kept w (say e w)"
  by (simp add: kept_def say_def)

lemma kept_errorCount: "kept w (w\<lparr>errorCount := n\<rparr>)"
  by (simp add: kept_def)

lemma kept_shrink: "kept w (shrink w)"
  by (simp add: kept_def shrink_def Let_def)

lemma kept_PersistConfig: "kept w (PersistConfig fl w)"
  by (simp add: kept_def PersistConfig_def)

lemma kept_write_rows: "write_rows body sk w = Inr w' \<Longrightarrow> kept w w'"
  by (auto simp: kept_def write_rows_def flush_to_def Let_def split: option.splits sink.splits)

lemma classify_kept:
  "classify got w = Finished oc w' \<Longrightarrow> kept w w' \<and> oc \<noteq> Completed"
  "classify got w = Again w' \<Longrightarrow> kept w w'"
  "classify got w = Flushed e w' \<Longrightarrow> kept w w'"
proof -
  obtain st body se sk where got: "got = (st, body, se, sk)" by (cases got)
  let ?w1 = "if st \<noteq> 200 then w\<lparr>errorCount := errorCount w + 1\<rparr> else w"
  have k1: "kept w ?w1" by (simp add: kept_errorCount kept_refl)
  have ks: "\<And>e. e \<noteq> RemoveResumer \<Longrightarrow> kept w (say e ?w1)"
    using kept_trans[OF k1 kept_say] by blast
  have ksh: "kept w (say (Sleep 30) (shrink ?w1))"
    using kept_trans[OF kept_trans[OF k1 kept_shrink] kept_say] by blast
  have kw: "\<And>w2. write_rows body sk ?w1 = Inr w2 \<Longrightarrow> kept w w2"
    using kept_trans[OF k1 kept_write_rows] by blast
  show "classify got w = Finished oc w' \<Longrightarrow> kept w w' \<and> oc \<noteq> Completed"
    unfolding got classify_def Let_def prod.case
    using ks k1 by (auto split: if_splits sum.splits)
  show "classify got w = Again w' \<Longrightarrow> kept w w'"
    unfolding got classify_def Let_def prod.case
    using ks ksh by (auto split: if_splits sum.splits)
  show "classify got w = Flushed e w' \<Longrightarrow> kept w w'"
    unfolding got classify_def Let_def prod.case
    using kw by (auto split: if_splits sum.splits)
qed

lemma commit_kept: "commit fl e w = (r, w') \<Longrightarrow> kept w w' \<and> r \<noteq> Some Completed"
  unfolding commit_def Let_def
  using kept_trans[OF kept_PersistConfig kept_trans[OF kept_errorCount kept_say]]
  by (auto split: if_splits simp: kept_PersistConfig)

lemma iteration_cases:
  assumes "iteration fl env w = (r, w')"
  shows "(r = Some Completed \<and> DoneElements (res w) = TotalElements (res w) \<and>
          w' = (if outputPath fl \<noteq> []
                then (say RemoveResumer (say StatusCompleted w))\<lparr>side_file := None\<rparr>
                else say StatusCompleted w)) \<or>
         (r \<noteq> Some Completed \<and> DoneElements (res w) \<noteq> TotalElements (res w) \<and> kept w w')"
proof (cases "DoneElements (res w) = TotalElements (res w)")
  case True
  then show ?thesis using assms by (auto simp: iteration_def transfer_def)
next
  case False
  obtain a w2 where rt: "retry 5 10 (nextChunk fl env) (clamp w) = (a, w2)" by force
  have k2: "kept w w2"
    using kept_trans[OF kept_clamp logged_kept[OF retry_nextChunk(1)[OF rt]]] .
  have "r \<noteq> Some Completed \<and> kept w w'"
  proof (cases a)
    case (Got got)
    show ?thesis
    proof (cases "classify got w2")
      case (Finished oc w3)
      then have "r = Some oc" "w' = w3" using assms False rt Got
        by (simp_all add: iteration_def transfer_def)
      then show ?thesis using classify_kept(1)[OF Finished] kept_trans[OF k2] by auto
    next
      case (Again w3)
      then have "r = None" "w' = w3" using assms False rt Got
        by (simp_all add: iteration_def transfer_def)
      then show ?thesis using classify_kept(2)[OF Again] kept_trans[OF k2] by auto
    next
      case (Flushed e w3)
      then have "commit fl e w3 = (r, w')" using assms False rt Got
        by (simp add: iteration_def transfer_def)
      then show ?thesis
        using commit_kept kept_trans[OF kept_trans[OF k2 classify_kept(3)[OF Flushed]]] by blast
    qed
  next
    case Failed
    then have "r = Some NetworkFailure" "w' = say (Println NetworkErrorMsg) w2"
      using assms False rt by (simp_all add: iteration_def transfer_def)
    then show ?thesis using kept_trans[OF k2 kept_say] by auto
  next
    case (Panicked p)
    then have "r = Some (Panic p)" "w' = w2"
      using assms False rt by (simp_all add: iteration_def transfer_def)
    then show ?thesis using k2 by auto
  qed
  then show ?thesis using False by simp
qed

lemma main_loop_removal:
  assumes "main_loop n fl env w = (oc, w')"
  shows "if oc = Completed
         then DoneElements (res w') = TotalElements (res w') \<and>
              (if outputPath fl \<noteq> []
               then side_file w' = None \<and>
                    (\<exists>evs. trace w' = trace w @ evs @ [StatusCompleted, RemoveResumer] \<and>
                           RemoveResumer \<notin> set evs)
               else kept w w')
         else kept w w'"
  using assms
proof (induction n arbitrary: w)
  case 0
  then show ?case by (auto simp: kept_refl)
next
  case (Suc n)
  obtain r w1 where it: "iteration fl env w = (r, w1)" by force
  from iteration_cases[OF it] show ?case
  proof (elim disjE conjE)
    assume c: "r = Some Completed" "DoneElements (res w) = TotalElements (res w)"
      "w1 = (if outputPath fl \<noteq> []
                then (say RemoveResumer (say StatusCompleted w))\<lparr>side_file := None\<rparr>
                else say StatusCompleted w)"
    then have "oc = Completed" "w' = w1" using Suc.prems it by simp_all
    then show ?thesis using c by (auto simp: say_def kept_def)
  next
    assume c: "r \<noteq> Some Completed" "kept w w1"
    show ?thesis
    proof (cases r)
      case None
      then have rec: "main_loop n fl env w1 = (oc, w')" using Suc.prems it by simp
      from c(2) obtain e1 where e1: "trace w1 = trace w @ e1" "RemoveResumer \<notin> set e1"
        unfolding kept_def by blast
      show ?thesis using Suc.IH[OF rec] kept_trans[OF c(2)] e1
        by (auto split: if_splits)
    next
      case (Some o1)
      then have "oc = o1" "w' = w1" using Suc.prems it by simp_all
      then show ?thesis using c Some by simp
    qed
  qed
qed

section \<open>The invariants along the loop\<close>

lemma sound_res: "res w' = res w \<Longrightarrow> sound w \<Longrightarrow> sound w'"
  by (simp add: sound_def invariants_def int64_typed_def)

lemma sound_clamp:
  assumes "sound w" and "DoneElements (res w) \<noteq> TotalElements (res w)"
  shows "sound (clamp w)"
    and "chunkSize (res (clamp w)) \<le> TotalElements (res w) - DoneElements (res w)"
    and "DoneElements (res (clamp w)) = DoneElements (res w)"
    and "TotalElements (res (clamp w)) = TotalElements (res w)"
proof -
  have "i64 (TotalElements (res w) - DoneElements (res w)) =
          TotalElements (res w) - DoneElements (res w)"
    using assms(1) unfolding sound_def invariants_def int64_typed_def by (intro i64_id) simp_all
  then show "sound (clamp w)"
    and "chunkSize (res (clamp w)) \<le> TotalElements (res w) - DoneElements (res w)"
    and "DoneElements (res (clamp w)) = DoneElements (res w)"
    and "TotalElements (res (clamp w)) = TotalElements (res w)"
    using assms unfolding sound_def invariants_def int64_typed_def
    by (auto simp: clamp_def Let_def)
qed

lemma sound_shrink: "sound w \<Longrightarrow> sound (shrink w)"
proof -
  assume s: "sound w"
  then have "i64 (chunkSize (res w) - 1000) = chunkSize (res w) - 1000"
    unfolding sound_def invariants_def int64_typed_def by (intro i64_id) simp_all
  then show ?thesis using s unfolding sound_def invariants_def int64_typed_def
    by (auto simp: shrink_def Let_def)
qed

lemma chunk_request_shape:
  assumes "chunk_request fl r = Inr (rq, sk)"
    and "0 \<le> DoneElements r" and "0 < chunkSize r" and "chunkSize r < 2 ^ 63"
  shows "req_chunk_size rq = chunkSize r"
    and "sk = (if DoneElements r = 0 then 0 else DoneElements r mod chunkSize r + 1)"
proof -
  have m: "0 \<le> DoneElements r mod chunkSize r" "DoneElements r mod chunkSize r < chunkSize r"
    using assms(3) by simp_all
  have w: "i64 (DoneElements r mod chunkSize r + 1) = DoneElements r mod chunkSize r + 1"
    using m assms(4) by (intro i64_id) simp_all
  have g: "go_rem (DoneElements r) (chunkSize r) = DoneElements r mod chunkSize r"
    using assms(2,3) by (rule go_rem_pos)
  show "req_chunk_size rq = chunkSize r"
    using assms(1) by (auto simp: chunk_request_def split: sum.splits)
  show "sk = (if DoneElements r = 0 then 0 else DoneElements r mod chunkSize r + 1)"
    using assms(1,2,3) w g
    by (auto simp: chunk_request_def nextChunkNumber_def Let_def split: sum.splits if_splits)
qed

lemma sound_write_rows:
  assumes s: "sound w" and wr: "write_rows body sk w = Inr w'"
    and room: "chunkSize (res w) \<le> TotalElements (res w) - DoneElements (res w)"
    and sk: "sk = (if DoneElements (res w) = 0 then 0
                   else DoneElements (res w) mod chunkSize (res w) + 1)"
    and len: "int (length body) \<le> chunkSize (res w) + 1"
  shows "sound w'"
proof -
  let ?D = "DoneElements (res w)" and ?T = "TotalElements (res w)" and ?c = "chunkSize (res w)"
  let ?rows = "drop (nat sk) (if ?D = 0 then drop 1 body else body)"
  from s have f: "0 \<le> ?D" "?D \<le> ?T" "0 < ?c" "?T < 2 ^ 63"
    unfolding sound_def invariants_def int64_typed_def by simp_all
  have m: "0 \<le> ?D mod ?c" using f(3) by simp
  have n: "int (length ?rows) \<le> ?c"
  proof (cases "?D = 0")
    case True
    then show ?thesis using len f(3) by (simp add: sk)
  next
    case False
    then have "1 \<le> nat sk" using m by (simp add: sk)
    then have "length ?rows \<le> length body - 1" using False by simp
    then show ?thesis using len f(3) by linarith
  qed
  have wrap: "i64 (?D + int (length ?rows)) = ?D + int (length ?rows)"
    using f n room by (intro i64_id) simp_all
  have "res w' = (res w)\<lparr>DoneElements := ?D + int (length ?rows)\<rparr>"
    using wr wrap by (auto simp: write_rows_def Let_def flush_to_def split: option.splits sink.splits)
  then show ?thesis using s n room f
    unfolding sound_def invariants_def int64_typed_def by simp
qed

lemma sound_classify:
  assumes s: "sound w"
    and room: "chunkSize (res w) \<le> TotalElements (res w) - DoneElements (res w)"
    and sk: "sk = (if DoneElements (res w) = 0 then 0
                   else DoneElements (res w) mod chunkSize (res w) + 1)"
    and len: "\<not> (400 \<le> st \<and> st < 600) \<longrightarrow> int (length body) \<le> chunkSize (res w) + 1"
  shows "classify (st, body, se, sk) w = Finished oc w' \<Longrightarrow> sound w'"
    and "classify (st, body, se, sk) w = Again w' \<Longrightarrow> sound w'"
    and "classify (st, body, se, sk) w = Flushed e w' \<Longrightarrow> sound w'"
proof -
  let ?w1 = "if st \<noteq> 200 then w\<lparr>errorCount := errorCount w + 1\<rparr> else w"
  have r1: "res ?w1 = res w" by simp
  have s1: "sound ?w1" using sound_res[OF r1 s] .
  have ssay: "\<And>e v. sound v \<Longrightarrow> sound (say e v)" by (rule sound_res) (simp_all add: say_def)
  have sw: "\<And>w2. \<not> (400 \<le> st \<and> st < 600) \<Longrightarrow> write_rows body sk ?w1 = Inr w2 \<Longrightarrow> sound w2"
    using sound_write_rows[OF s1, of body sk] room sk len unfolding r1 by blast
  show "classify (st, body, se, sk) w = Finished oc w' \<Longrightarrow> sound w'"
    unfolding classify_def Let_def prod.case
    using s1 ssay[OF s1] by (auto split: if_splits sum.splits)
  show "classify (st, body, se, sk) w = Again w' \<Longrightarrow> sound w'"
    unfolding classify_def Let_def prod.case
    using ssay[OF s1] ssay[OF sound_shrink[OF s1]] by (auto split: if_splits sum.splits)
  show "classify (st, body, se, sk) w = Flushed e w' \<Longrightarrow> sound w'"
    unfolding classify_def Let_def prod.case
    using sw by (auto split: if_splits sum.splits)
qed

lemma sound_commit: "sound w \<Longrightarrow> commit fl e w = (r, w') \<Longrightarrow> sound w'"
  by (rule sound_res[of w' w]) (auto simp: commit_def Let_def PersistConfig_def say_def split: if_splits)

lemma sound_iteration:
  assumes s: "sound w" and env: "well_sized env" and it: "iteration fl env w = (r, w')"
  shows "sound w'"
proof (cases "DoneElements (res w) = TotalElements (res w)")
  case True
  then have "res w' = res w" using it by (auto simp: iteration_def transfer_def say_def)
  then show ?thesis using s by (rule sound_res)
next
  case False
  note cl = sound_clamp[OF s False]
  obtain a w2 where rt: "retry 5 10 (nextChunk fl env) (clamp w) = (a, w2)" by force
  have r2: "res w2 = res (clamp w)" using logged_fields(1)[OF retry_nextChunk(1)[OF rt]] .
  have s2: "sound w2" using sound_res[OF r2 cl(1)] .
  show ?thesis
  proof (cases a)
    case (Got got)
    obtain st body se sk where got: "got = (st, body, se, sk)" by (cases got)
    from retry_nextChunk(3)[OF rt, of st body se sk] Got got obtain rq k where
      cr: "chunk_request fl (res (clamp w)) = Inr (rq, sk)" and rp: "env k rq = Reply st body se"
      by blast
    from cl(1) have f: "0 \<le> DoneElements (res (clamp w))" "0 < chunkSize (res (clamp w))"
      "chunkSize (res (clamp w)) < 2 ^ 63"
      unfolding sound_def invariants_def int64_typed_def by simp_all
    note sh = chunk_request_shape[OF cr f]
    have len: "\<not> (400 \<le> st \<and> st < 600) \<longrightarrow> int (length body) \<le> chunkSize (res w2) + 1"
      using env rp sh(1) f(2) unfolding well_sized_def r2 by metis
    have room: "chunkSize (res w2) \<le> TotalElements (res w2) - DoneElements (res w2)"
      unfolding r2 using cl(2,3,4) by simp
    have sk: "sk = (if DoneElements (res w2) = 0 then 0
                   else DoneElements (res w2) mod chunkSize (res w2) + 1)"
      unfolding r2 using sh(2) .
    note sc = sound_classify[OF s2 room sk len]
    show ?thesis
    proof (cases "classify got w2")
      case (Finished oc w3)
      then have "w' = w3" using it False rt Got by (simp add: iteration_def transfer_def)
      then show ?thesis using sc(1) Finished got by simp
    next
      case (Again w3)
      then have "w' = w3" using it False rt Got by (simp add: iteration_def transfer_def)
      then show ?thesis using sc(2) Again got by simp
    next
      case (Flushed e w3)
      then have "commit fl e w3 = (r, w')" using it False rt Got
        by (simp add: iteration_def transfer_def)
      moreover have "sound w3" using sc(3) Flushed got by simp
      ultimately show ?thesis using sound_commit by blast
    qed
  next
    case Failed
    then have "w' = say (Println NetworkErrorMsg) w2"
      using it False rt by (simp add: iteration_def transfer_def)
    then show ?thesis using s2 by (intro sound_res[of w' w2]) (simp_all add: say_def)
  next
    case (Panicked p)
    then have "w' = w2" using it False rt by (simp add: iteration_def transfer_def)
    then show ?thesis using s2 by simp
  qed
qed

lemma sound_main_loop:
  assumes "sound w" and "well_sized env"
  shows "sound (snd (main_loop n fl env w))"
  using assms(1)
proof (induction n arbitrary: w)
  case 0
  then show ?case by simp
next
  case (Suc n)
  obtain r w1 where it: "iteration fl env w = (r, w1)" by force
  have s1: "sound w1" using sound_iteration[OF Suc.prems assms(2) it] .
  show ?case
  proof (cases r)
    case None
    then show ?thesis using it Suc.IH[OF s1] by simp
  next
    case (Some oc)
    then show ?thesis using it s1 by simp
  qed
qed

lemma well_sized_api: "well_sized (api hdr rows)"
  unfolding well_sized_def api_def by (intro allI impI) auto

section \<open>Consistency of output file and resumer file\<close>

lemma committed_extend:
  assumes "0 \<le> d" and "0 < k"
  shows "committed hdr rows (nat d) @
           render ((if d = 0 then [hdr] else []) @ take (nat k) (drop (nat d) rows)) =
         committed hdr rows (nat (d + k))"
proof (cases "d = 0")
  case True
  then show ?thesis using assms(2) by (simp add: committed_def)
next
  case False
  then have d: "0 < d" using assms(1) by simp
  have "nat (d + k) = nat d + nat k" using assms by (simp add: nat_add_distrib)
  then have "take (nat (d + k)) rows = take (nat d) rows @ take (nat k) (drop (nat d) rows)"
    by (simp add: take_add)
  then show ?thesis using d assms(2) by (simp add: committed_def render_def)
qed

lemma consistent_iteration:
  assumes c: "consistent fl hdr rows w" and small: "length rows < 2 ^ 53"
    and DT: "DoneElements (res w) < TotalElements (res w)"
  shows "\<exists>w'. iteration fl (api hdr rows) w = (None, w') \<and> consistent fl hdr rows w' \<and>
              DoneElements (res w) < DoneElements (res w')"
proof -
  let ?D = "DoneElements (res w)" and ?T = "TotalElements (res w)"
  define cs where "cs = min (chunkSize (res w)) (?T - ?D)"
  define k where "k = cs - ?D mod cs"
  from c have f: "outputPath fl \<noteq> []" "outputWriter w = Some OutputFile"
    "NoDetails (res w) = noDetails fl" "?T = int (length rows)" "0 \<le> ?D"
    "0 < chunkSize (res w)" "chunkSize (res w) < 2 ^ 63"
    "out_file w = Some (committed hdr rows (nat ?D))"
    unfolding consistent_def by simp_all
  have cpos: "0 < cs" "cs < 2 ^ 63" "cs \<le> ?T - ?D" using f DT by (simp_all add: cs_def)
  have kpos: "0 < k" "k \<le> cs" using cpos(1) by (simp_all add: k_def pos_mod_bound)
  from iteration_api[OF f(2) f(4) small f(5) DT f(6) f(7) cs_def k_def, of fl hdr] obtain w' where
    it: "iteration fl (api hdr rows) w = (None, w')"
    and r: "res w' = (res w)\<lparr>chunkSize := cs, DoneElements := ?D + k\<rparr>"
    and o: "outputWriter w' = Some OutputFile"
    and fi: "out_file w' =
           Some ((case out_file w of None \<Rightarrow> [] | Some old \<Rightarrow> old) @
                 render ((if ?D = 0 then [hdr] else []) @ take (nat k) (drop (nat ?D) rows)))"
    and sf: "side_file w' = side_file (PersistConfig fl w')"
    by blast
  have "out_file w' = Some (committed hdr rows (nat (?D + k)))"
    unfolding fi f(8) using committed_extend[OF f(5) kpos(1)] by simp
  then have "consistent fl hdr rows w'"
    unfolding consistent_def using f o sf r cpos kpos by simp
  moreover have "?D < DoneElements (res w')" using r kpos by simp
  ultimately show ?thesis using it by blast
qed

lemma consistent_completes:
  assumes c: "consistent fl hdr rows w" and small: "length rows < 2 ^ 53"
  shows "\<exists>n w'. main_loop n fl (api hdr rows) w = (Completed, w') \<and>
                out_file w' = Some (committed hdr rows (length rows))"
  using c
proof (induction "nat (TotalElements (res w) - DoneElements (res w))" arbitrary: w rule: less_induct)
  case less
  let ?D = "DoneElements (res w)" and ?T = "TotalElements (res w)"
  from less.prems have f: "?T = int (length rows)" "?D \<le> ?T"
    "out_file w = Some (committed hdr rows (nat ?D))"
    unfolding consistent_def by simp_all
  show ?case
  proof (cases "?D = ?T")
    case True
    define w' where "w' = (if outputPath fl \<noteq> []
            then (say RemoveResumer (say StatusCompleted w))\<lparr>side_file := None\<rparr>
            else say StatusCompleted w)"
    have "iteration fl (api hdr rows) w = (Some Completed, w')"
      unfolding w'_def using True by (rule iteration_completed_at_total)
    then have "main_loop (Suc 0) fl (api hdr rows) w = (Completed, w')" by simp
    moreover have "out_file w' = Some (committed hdr rows (length rows))"
      using f True by (simp add: w'_def say_def)
    ultimately show ?thesis by blast
  next
    case False
    then have DT: "?D < ?T" using f(2) by simp
    from consistent_iteration[OF less.prems small DT] obtain w1 where
      it: "iteration fl (api hdr rows) w = (None, w1)" and c1: "consistent fl hdr rows w1"
      and up: "?D < DoneElements (res w1)" by blast
    have T1: "TotalElements (res w1) = ?T" using c1 f(1) unfolding consistent_def by simp
    have "DoneElements (res w1) \<le> ?T" using c1 T1 unfolding consistent_def by simp
    then have m: "nat (TotalElements (res w1) - DoneElements (res w1)) < nat (?T - ?D)"
      using up T1 by simp
    from less.hyps[OF m c1] obtain n w' where
      "main_loop n fl (api hdr rows) w1 = (Completed, w')"
      "out_file w' = Some (committed hdr rows (length rows))" by blast
    then have "main_loop (Suc n) fl (api hdr rows) w = (Completed, w') \<and>
               out_file w' = Some (committed hdr rows (length rows))"
      using it by simp
    then show ?thesis by blast
  qed
qed

lemma consistent_between_passes:
  assumes "consistent fl hdr rows w" and "length rows < 2 ^ 53"
    and "main_loop k fl (api hdr rows) w = (OutOfFuel, wk)"
  shows "consistent fl hdr rows wk"
  using assms(1,3)
proof (induction k arbitrary: w)
  case 0
  then show ?case by simp
next
  case (Suc k)
  show ?case
  proof (cases "DoneElements (res w) = TotalElements (res w)")
    case True
    then have "iteration fl (api hdr rows) w = (Some Completed,
            if outputPath fl \<noteq> []
            then (say RemoveResumer (say StatusCompleted w))\<lparr>side_file := None\<rparr>
            else say StatusCompleted w)"
      by (rule iteration_completed_at_total)
    then show ?thesis using Suc.prems(2) by simp
  next
    case False
    then have DT: "DoneElements (res w) < TotalElements (res w)"
      using Suc.prems(1) unfolding consistent_def by simp
    from consistent_iteration[OF Suc.prems(1) assms(2) DT] obtain w1 where
      it: "iteration fl (api hdr rows) w = (None, w1)" and c1: "consistent fl hdr rows w1"
      by blast
    have "main_loop k fl (api hdr rows) w1 = (OutOfFuel, wk)" using Suc.prems(2) it by simp
    then show ?thesis using Suc.IH[OF c1] by simp
  qed
qed

lemma consistent_resume:
  assumes "consistent fl hdr rows w"
    and "username fl \<noteq> []" and "password fl \<noteq> []" and "crawl fl \<noteq> 0" and "\<not> noResume fl"
  shows "\<exists>wr. init fl penv (boot (out_file w) (side_file w)) = Returned wr \<and>
              consistent fl hdr rows wr"
proof -
  from assms(1) have f: "outputPath fl \<noteq> []" "NoDetails (res w) = noDetails fl"
    "TotalElements (res w) = int (length rows)"
    "0 \<le> DoneElements (res w)" "DoneElements (res w) \<le> TotalElements (res w)"
    "out_file w = Some (committed hdr rows (nat (DoneElements (res w))))"
    "side_file w = side_file (PersistConfig fl w)"
    unfolding consistent_def by simp_all
  have sf: "side_file w = Some (Json \<lparr>j_outputFilename = OutputFilename (res w),
                                         j_doneElements = DoneElements (res w),
                                         j_totalElements = TotalElements (res w),
                                         j_noDetails = NoDetails (res w)\<rparr>)"
    using f(7) f(1) by (simp add: PersistConfig_def)
  show ?thesis
    unfolding f(6) sf using assms(2-5) f(1-5)
    by (simp add: init_def boot_def Resumer0_def set_chunkSize_def Let_def consistent_def
        PersistConfig_def)
qed

text \<open>
  A new download starts consistent: \<^verbatim>\<open>init\<close> on a disk with neither file, the probe
  having reported the size of the data set.
\<close>

lemma retry_loop_logged:
  assumes cb: "\<And>v r v'. callback v = (r, v') \<Longrightarrow> logged v v'"
  shows "retry_loop n s callback w = (r, w') \<Longrightarrow> logged w w'"
proof (induction n arbitrary: w)
  case 0
  then show ?case using cb by simp
next
  case (Suc n)
  obtain r1 w1 where c1: "callback w = (r1, w1)" by force
  show ?case
  proof (cases "r1 = Failed")
    case True
    let ?w2 = "w1\<lparr>errorCount := errorCount w1 + 1, trace := trace w1 @ [Sleep s]\<rparr>"
    from Suc.prems c1 True have rec: "retry_loop n s callback ?w2 = (r, w')" by simp
    have "logged w ?w2" using cb[OF c1] by (rule logged_sleep)
    then show ?thesis using Suc.IH[OF rec] logged_trans by blast
  next
    case False
    with Suc.prems c1 have "w' = w1" by (auto split: attempt.splits)
    then show ?thesis using cb[OF c1] by simp
  qed
qed

lemma fetchTotalElements_logged: "fetchTotalElements fl penv v = (r, v') \<Longrightarrow> logged v v'"
  by (auto simp: fetchTotalElements_def Let_def logged_def split: probe_reply.splits)

lemma totalElements_logged:
  assumes "totalElements fl penv w = (t, w')"
  shows "logged w w'"
proof -
  let ?cb = "\<lambda>v. case fetchTotalElements fl penv v of
                     (Got (statusCode, totalRows), v') \<Rightarrow>
                       if statusCode \<noteq> 200 then (Failed, v') else (Got totalRows, v')
                   | (Failed, v') \<Rightarrow> (Failed, v')
                   | (Panicked p, v') \<Rightarrow> (Panicked p, v')"
  have cb: "\<And>v r v'. ?cb v = (r, v') \<Longrightarrow> logged v v'"
    using fetchTotalElements_logged by (auto split: prod.splits attempt.splits if_splits)
  obtain a w2 where rt: "retry 5 1 ?cb w = (a, w2)" by force
  have "logged w w2" using retry_loop_logged[of ?cb, OF cb rt[unfolded retry_def]] .
  moreover have "w' = w2" using assms rt by (auto simp: totalElements_def split: attempt.splits)
  ultimately show ?thesis by simp
qed

lemma init_fresh:
  assumes "outputPath fl \<noteq> []"
  shows "init fl penv (boot None None) =
     (if username fl = [] \<or> password fl = [] \<or> crawl fl = 0 then Exited (boot None None)
      else case totalElements fl penv
                  ((if \<not> noResume fl then say (Println NoDownloadToResume) (boot None None)
                    else boot None None)\<lparr>res := Resumer0\<rparr>) of
             (None, w1) \<Rightarrow> Returned (say (Println ProbeFailed) w1)
           | (Some totalRows, w1) \<Rightarrow>
               Returned (set_chunkSize
                 ((PersistConfig fl (fresh fl totalRows w1))
                    \<lparr>out_file := Some [], outputWriter := Some OutputFile\<rparr>)))"
proof -
  have b: "out_file (boot None None) = None" "side_file (boot None None) = None"
    by (simp_all add: boot_def)
  show ?thesis using assms by (simp add: init_def Let_def b)
qed

lemma fresh_start_consistent:
  assumes "outputPath fl \<noteq> []"
    and "init fl penv (boot None None) = Returned w0"
    and "TotalElements (res w0) = int (length rows)" and "rows \<noteq> []"
  shows "consistent fl hdr rows w0"
proof -
  define b where "b = (if \<not> noResume fl then say (Println NoDownloadToResume) (boot None None)
                       else boot None None)\<lparr>res := Resumer0\<rparr>"
  obtain t w1 where te: "totalElements fl penv b = (t, w1)" by force
  have lg: "logged b w1" using totalElements_logged[OF te] .
  have bf: "res b = Resumer0" by (simp add: b_def)
  have r1: "res w1 = Resumer0" using logged_fields(1)[OF lg] bf by simp
  note ini = assms(2)[unfolded init_fresh[OF assms(1)] b_def[symmetric] te]
  show ?thesis
  proof (cases t)
    case None
    then have "w0 = say (Println ProbeFailed) w1"
      using ini by (simp split: if_splits)
    then have "TotalElements (res w0) = 0" by (simp add: say_def r1 Resumer0_def)
    then show ?thesis using assms(3,4) by simp
  next
    case (Some n)
    then have w0: "w0 = set_chunkSize ((PersistConfig fl (fresh fl n w1))
                             \<lparr>out_file := Some [], outputWriter := Some OutputFile\<rparr>)"
      using ini by (simp split: if_splits)
    have "n = int (length rows)" using assms(3) unfolding w0
      by (simp add: set_chunkSize_def PersistConfig_def fresh_def assms(1))
    then show ?thesis unfolding w0 consistent_def
      by (simp add: set_chunkSize_def PersistConfig_def fresh_def assms(1) r1 Resumer0_def
          committed_def)
  qed
qed

section \<open>Claim C1: the chunk address beyond \<open>2\<^sup>5\<^sup>3\<close> rows\<close>

text \<open>
  Claim C1 says that for every positive chunk size and every \<^verbatim>\<open>DoneElements\<close> up to
  \<^verbatim>\<open>TotalElements\<close> the chunk index is \<open>\<lfloor>DoneElements / chunkSize\<rfloor>\<close>. The code takes the
  quotient in \<^verbatim>\<open>float64\<close>. With 9007199254740993 rows done out of 9007199254740994,
  the chunk size is cut to 1 and the request asks for chunk 9007199254740992, while
  \<open>\<lfloor>DoneElements / chunkSize\<rfloor>\<close> is 9007199254740993: \<^verbatim>\<open>float64(DoneElements)\<close> has
  rounded the odd number down. (Below \<open>2\<^sup>5\<^sup>3\<close> rows the address is the claimed one:
  \<open>chunk_request_exact\<close>, \<open>iteration_api\<close>.)
\<close>

theorem chunk_index_rounded_above_2_53:
  "chunk_request flags0 (res (clamp (world0 10000 9007199254740993 9007199254740994 0))) =
     Inr (\<lparr>req_username = ''user'', req_password = ''secret'', req_crawl = 1,
            req_deep = ''1'', req_chunk = 9007199254740992, req_chunk_size = 1,
            req_output = Tsv\<rparr>, 1) \<and>
   (9007199254740993 :: int) div 1 = 9007199254740993"
  by code_simp

section \<open>Claim C2: interrupting and resuming\<close>

text \<open>
  What the code does achieve. Take a session whose files are consistent with a data
  set of fewer than \<open>2\<^sup>5\<^sup>3\<close> rows, served without errors by \<open>api\<close>, and interrupt it
  between two passes of the loop, that is after the checkpoint of the last chunk has
  been saved. A later invocation with the same flags that resumes from the two files
  on disk completes, the uninterrupted session completes as well, and both leave the
  same output file, byte for byte: the header line followed by every row once, in
  order.
\<close>

lemma resume_between_passes_reproduces_file:
  assumes "consistent fl hdr rows w0" and "length rows < 2 ^ 53"
    and "username fl \<noteq> []" and "password fl \<noteq> []" and "crawl fl \<noteq> 0" and "\<not> noResume fl"
    and "main_loop k fl (api hdr rows) w0 = (OutOfFuel, wk)"
  shows "\<exists>n wf m wf'.
           program n fl penv (api hdr rows) (out_file wk) (side_file wk) = (Completed, wf) \<and>
           main_loop m fl (api hdr rows) w0 = (Completed, wf') \<and>
           out_file wf = out_file wf' \<and>
           out_file wf = Some (committed hdr rows (length rows))"
proof -
  have ck: "consistent fl hdr rows wk" using consistent_between_passes[OF assms(1,2,7)] .
  from consistent_resume[OF ck assms(3-6), of penv] obtain wr where
    ini: "init fl penv (boot (out_file wk) (side_file wk)) = Returned wr"
    and cr: "consistent fl hdr rows wr" by blast
  from consistent_completes[OF cr assms(2)] obtain n wf where
    a: "main_loop n fl (api hdr rows) wr = (Completed, wf)"
    "out_file wf = Some (committed hdr rows (length rows))" by blast
  from consistent_completes[OF assms(1,2)] obtain m wf' where
    b: "main_loop m fl (api hdr rows) w0 = (Completed, wf')"
    "out_file wf' = Some (committed hdr rows (length rows))" by blast
  have "program n fl penv (api hdr rows) (out_file wk) (side_file wk) = (Completed, wf)"
    by (simp add: program_def ini a(1))
  then show ?thesis using a(2) b
    by (intro exI[of _ n] exI[of _ wf] exI[of _ m] exI[of _ wf']) simp
qed

text \<open>
  The same on three rows fetched at chunk size 2, interrupted after the first pass.
\<close>

lemma resume_between_passes_reproduces_file_example:
  "\<exists>n wf m wf'.
     program n flags0 no_probe (api ''url'' [''a'', ''b'', ''c''])
       (out_file (snd (main_loop 1 flags0 (api ''url'' [''a'', ''b'', ''c'']) (tracked 2 0 3))))
       (side_file (snd (main_loop 1 flags0 (api ''url'' [''a'', ''b'', ''c'']) (tracked 2 0 3)))) =
       (Completed, wf) \<and>
     main_loop m flags0 (api ''url'' [''a'', ''b'', ''c'']) (tracked 2 0 3) = (Completed, wf') \<and>
     out_file wf = out_file wf' \<and>
     out_file wf = Some (render [''url'', ''a'', ''b'', ''c''])"
proof -
  let ?api = "api ''url'' [''a'', ''b'', ''c'']"
  let ?r = "main_loop 1 flags0 ?api (tracked 2 0 3)"
  have h1: "consistent flags0 ''url'' [''a'', ''b'', ''c''] (tracked 2 0 3)" by code_simp
  have h2: "length [''a'', ''b'', ''c''] < 2 ^ 53" by simp
  have h3: "username flags0 \<noteq> []" "password flags0 \<noteq> []" "crawl flags0 \<noteq> 0"
    "\<not> noResume flags0" by (simp_all add: flags0_def)
  have "fst ?r = OutOfFuel" by code_simp
  then have h4: "?r = (OutOfFuel, snd ?r)" by (simp add: prod_eq_iff)
  have c: "committed ''url'' [''a'', ''b'', ''c''] (length [''a'', ''b'', ''c'']) =
           render [''url'', ''a'', ''b'', ''c'']" by (simp add: committed_def)
  show ?thesis
    using resume_between_passes_reproduces_file[OF h1 h2 h3 h4, of no_probe] unfolding c .
qed

text \<open>
  Claim C2 says that a run interrupted right after a chunk's rows have been flushed,
  and resumed from the persisted checkpoint, leaves the file of an uninterrupted run,
  with no row missing and none duplicated. The code flushes the rows (line 335) and
  only then saves the checkpoint (line 337), and \<^verbatim>\<open>init\<close> reopens the output file for
  appending without looking at it; the validation is only announced, in the comments
  of \<^verbatim>\<open>init\<close>. A session of two rows killed right after the flush of its first pass
  has header and rows in the output file and a checkpoint that still says 0 rows: the
  resumed invocation fetches the chunk again and appends header and rows a second
  time, while the uninterrupted session writes them once.
\<close>

theorem kill_after_flush_duplicates_rows:
  "transfer flags0 (api ''url'' [''a'', ''b'']) (tracked 10000 0 2) =
     Flushed False killed_after_flush \<and>
   fst (program 3 flags0 no_probe (api ''url'' [''a'', ''b''])
          (out_file killed_after_flush) (side_file killed_after_flush)) = Completed \<and>
   out_file (snd (program 3 flags0 no_probe (api ''url'' [''a'', ''b''])
          (out_file killed_after_flush) (side_file killed_after_flush))) =
     Some (render [''url'', ''a'', ''b'', ''url'', ''a'', ''b'']) \<and>
   fst (main_loop 3 flags0 (api ''url'' [''a'', ''b'']) (tracked 10000 0 2)) = Completed \<and>
   out_file (snd (main_loop 3 flags0 (api ''url'' [''a'', ''b'']) (tracked 10000 0 2))) =
     Some (render [''url'', ''a'', ''b''])"
  by code_simp

section \<open>Claim C3: 25000 rows at chunk size 10000\<close>

text \<open>
  Claim C3, as the code has it. A session with 25000 rows to fetch, none done and the
  chunk size at 10000, served without errors, completes within four passes of the
  loop; it requests the chunk indices 0, 1 and 4, in that order, with the chunk sizes
  10000, 10000 and 5000: before the last request \<^verbatim>\<open>res.chunkSize\<close> is cut down to the
  5000 rows that remain, and the index is recomputed from that size, 20000 / 5000.
\<close>

theorem error_free_25000_requests:
  assumes "outputWriter w = Some s" and "DoneElements (res w) = 0"
    and "TotalElements (res w) = 25000" and "chunkSize (res w) = 10000"
    and "length rows = 25000" and "trace w = []"
  shows "\<exists>w'. main_loop 4 fl (api hdr rows) w = (Completed, w') \<and>
           map req_chunk (requests (trace w')) = [0, 1, 4] \<and>
           map req_chunk_size (requests (trace w')) = [10000, 10000, 5000] \<and>
           chunkSize (res w') = 5000"
proof -
  from run_25000[OF assms(1-5), of fl hdr] obtain w' where
    "main_loop 4 fl (api hdr rows) w = (Completed, w')"
    "requests (trace w') = requests (trace w) @
       [tsv_request fl 0 10000, tsv_request fl 1 10000, tsv_request fl 4 5000]"
    "chunkSize (res w') = 5000"
    by blast
  then show ?thesis using assms(6) by (simp add: tsv_request_def)
qed

text \<open>The theorem on a data set of 25000 equal rows.\<close>

theorem error_free_25000_requests_witness:
  "\<exists>w'. main_loop 4 flags0 (api ''url'' (replicate 25000 ''row'')) (world0 10000 0 25000 0) =
          (Completed, w') \<and>
        map req_chunk (requests (trace w')) = [0, 1, 4] \<and>
        map req_chunk_size (requests (trace w')) = [10000, 10000, 5000] \<and>
        chunkSize (res w') = 5000"
proof -
  have h: "outputWriter (world0 10000 0 25000 0) = Some OutputFile"
    "DoneElements (res (world0 10000 0 25000 0)) = 0"
    "TotalElements (res (world0 10000 0 25000 0)) = 25000"
    "chunkSize (res (world0 10000 0 25000 0)) = 10000"
    "length (replicate 25000 ''row'') = 25000"
    "trace (world0 10000 0 25000 0) = []"
    by (simp_all add: world0_def)
  show ?thesis using error_free_25000_requests[OF h] .
qed

text \<open>
  Claim C3 as the specification words it has the indices 0, 1, 2. On 25000 rows the
  third request is for chunk 4.
\<close>

theorem chunk_index_2_counterexample:
  "map req_chunk (requests (trace (snd (main_loop 4 flags0 (api ''url'' (replicate 25000 ''row''))
      (world0 10000 0 25000 0))))) = [0, 1, 4] \<and>
   map req_chunk (requests (trace (snd (main_loop 4 flags0 (api ''url'' (replicate 25000 ''row''))
      (world0 10000 0 25000 0))))) \<noteq> [0, 1, 2]"
proof -
  have h: "outputWriter (world0 10000 0 25000 0) = Some OutputFile"
    "DoneElements (res (world0 10000 0 25000 0)) = 0"
    "TotalElements (res (world0 10000 0 25000 0)) = 25000"
    "chunkSize (res (world0 10000 0 25000 0)) = 10000"
    "length (replicate 25000 ''row'') = 25000"
    by (simp_all add: world0_def)
  have t: "trace (world0 10000 0 25000 0) = []" by (simp add: world0_def)
  from run_25000[OF h, of flags0 "''url''"] obtain w' where
    "main_loop 4 flags0 (api ''url'' (replicate 25000 ''row'')) (world0 10000 0 25000 0) =
       (Completed, w')"
    "requests (trace w') = requests (trace (world0 10000 0 25000 0)) @
       [tsv_request flags0 0 10000, tsv_request flags0 1 10000, tsv_request flags0 4 5000]"
    by blast
  then show ?thesis unfolding t by (simp add: tsv_request_def)
qed

section \<open>Claim C4: what the checkpoint holds\<close>

text \<open>
  Claim C4, as the code has it. The record \<^verbatim>\<open>PersistConfig\<close> writes does not depend on
  the chunk size: a state and the same state with another chunk size leave the same
  resumer file, and an invocation that starts from that file starts the same way
  whatever the chunk size was. A resuming invocation with the same detail flag reads
  rows done, total rows, detail flag and file name back from it and starts with the
  chunk size 10000.
\<close>

theorem checkpoint_omits_chunkSize:
  "side_file (PersistConfig fl (w\<lparr>res := (res w)\<lparr>chunkSize := c\<rparr>\<rparr>)) =
     side_file (PersistConfig fl w) \<and>
   init fl penv (boot f (side_file (PersistConfig fl (w\<lparr>res := (res w)\<lparr>chunkSize := c\<rparr>\<rparr>)))) =
     init fl penv (boot f (side_file (PersistConfig fl w))) \<and>
   (username fl \<noteq> [] \<and> password fl \<noteq> [] \<and> crawl fl \<noteq> 0 \<and> outputPath fl \<noteq> [] \<and>
    \<not> noResume fl \<and> NoDetails (res w) = noDetails fl \<longrightarrow>
      (\<exists>w'. init fl penv (boot (Some g) (side_file (PersistConfig fl w))) = Returned w' \<and>
            chunkSize (res w') = 10000 \<and>
            DoneElements (res w') = DoneElements (res w) \<and>
            TotalElements (res w') = TotalElements (res w) \<and>
            NoDetails (res w') = NoDetails (res w) \<and>
            OutputFilename (res w') = OutputFilename (res w)))"
proof -
  have a: "side_file (PersistConfig fl (w\<lparr>res := (res w)\<lparr>chunkSize := c\<rparr>\<rparr>)) =
     side_file (PersistConfig fl w)"
    by (simp add: PersistConfig_def)
  have b: "username fl \<noteq> [] \<and> password fl \<noteq> [] \<and> crawl fl \<noteq> 0 \<and> outputPath fl \<noteq> [] \<and>
    \<not> noResume fl \<and> NoDetails (res w) = noDetails fl \<longrightarrow>
      (\<exists>w'. init fl penv (boot (Some g) (side_file (PersistConfig fl w))) = Returned w' \<and>
            chunkSize (res w') = 10000 \<and>
            DoneElements (res w') = DoneElements (res w) \<and>
            TotalElements (res w') = TotalElements (res w) \<and>
            NoDetails (res w') = NoDetails (res w) \<and>
            OutputFilename (res w') = OutputFilename (res w))"
    by (simp add: PersistConfig_def init_def boot_def Resumer0_def set_chunkSize_def Let_def)
  show ?thesis using a b by (simp only:)
qed

text \<open>The theorem on a session at 20000 of 25000 rows.\<close>

theorem checkpoint_omits_chunkSize_witness:
  "side_file (PersistConfig flags0 ((world0 10000 20000 25000 0)
       \<lparr>res := (res (world0 10000 20000 25000 0))\<lparr>chunkSize := 5000\<rparr>\<rparr>)) =
     side_file (PersistConfig flags0 (world0 10000 20000 25000 0)) \<and>
   (\<exists>w'. init flags0 no_probe
           (boot (Some []) (side_file (PersistConfig flags0 (world0 10000 20000 25000 0)))) =
         Returned w' \<and>
         chunkSize (res w') = 10000 \<and> DoneElements (res w') = 20000)"
proof -
  have h: "username flags0 \<noteq> [] \<and> password flags0 \<noteq> [] \<and> crawl flags0 \<noteq> 0 \<and>
    outputPath flags0 \<noteq> [] \<and> \<not> noResume flags0 \<and>
    NoDetails (res (world0 10000 20000 25000 0)) = noDetails flags0"
    by (simp add: flags0_def world0_def)
  have d: "DoneElements (res (world0 10000 20000 25000 0)) = 20000" by (simp add: world0_def)
  from checkpoint_omits_chunkSize[where fl = flags0 and w = "world0 10000 20000 25000 0"
      and c = 5000 and penv = no_probe and f = None and g = "[]"] h
  show ?thesis unfolding d by blast
qed

text \<open>
  Claim C4 as the specification words it says that a reduced chunk size survives into
  the resumed invocation. A session whose chunk size is 5000 when it writes its
  checkpoint is resumed with the chunk size 10000.
\<close>

theorem checkpoint_chunkSize_counterexample:
  "chunkSize (res (world0 5000 20000 25000 0)) = 5000 \<and>
   resumed_after_shrink =
     Returned (world_of resumed_after_shrink) \<and>
   chunkSize (res (world_of resumed_after_shrink)) = 10000"
  by code_simp

section \<open>Status 504: timeouts and the shrinking chunk size\<close>

text \<open>
  Claim C5, as the code has it. Let a pass of the loop fetch its chunk (after any
  retries of the transport) with status 504. Then the pass ends without a result and
  the loop goes round again; \<^verbatim>\<open>DoneElements\<close> is what it was; one sleep of 30 seconds
  is the last thing that happened; \<^verbatim>\<open>timeoutCount\<close> was incremented, and if it has
  reached 3 and the chunk size of the request is above 1000, the chunk size is
  smaller by exactly 1000 and \<^verbatim>\<open>timeoutCount\<close> is back at 0. In every other case the
  chunk size is unchanged and \<^verbatim>\<open>timeoutCount\<close> keeps its incremented value: below 3
  (so a 504 right after a reset shrinks nothing), and also at 3 or more when the chunk
  size is 1000 or less. The chunk size meant is the one the request was sent with,
  after line 242 has cut it down to the rows that remain; it is assumed to be an
  \<^verbatim>\<open>int64\<close> from which 1000 can be subtracted without wrapping around.
\<close>

theorem timeout_504_shrinks_above_1000:
  assumes "DoneElements (res w) \<noteq> TotalElements (res w)"
    and "retry 5 10 (nextChunk fl env) (clamp w) = (Got (504, body, e, sk), w2)"
    and "- (2 ^ 63) + 1000 \<le> chunkSize (res (clamp w))"
    and "chunkSize (res (clamp w)) < 2 ^ 63"
  shows "\<exists>w'. iteration fl env w = (None, w') \<and>
           DoneElements (res w') = DoneElements (res w) \<and>
           trace w' = trace w2 @ [Sleep 30] \<and>
           (if 3 \<le> timeoutCount w + 1 \<and> 1000 < chunkSize (res (clamp w))
            then chunkSize (res w') = chunkSize (res (clamp w)) - 1000 \<and> timeoutCount w' = 0
            else chunkSize (res w') = chunkSize (res (clamp w)) \<and>
                 timeoutCount w' = timeoutCount w + 1)"
proof -
  let ?c = "chunkSize (res (clamp w))"
  have lg: "logged (clamp w) w2" using retry_nextChunk(1)[OF assms(2)] .
  have r2: "res w2 = res (clamp w)" and t2: "timeoutCount w2 = timeoutCount w"
    using logged_fields[OF lg] by (simp_all add: clamp_def Let_def)
  have wrap: "i64 (?c - 1000) = ?c - 1000" using assms(3,4) by (intro i64_id) simp_all
  have d: "DoneElements (res (clamp w)) = DoneElements (res w)" by (simp add: clamp_def Let_def)
  let ?w' = "say (Sleep 30) (shrink (w2\<lparr>errorCount := errorCount w2 + 1\<rparr>))"
  have it: "iteration fl env w = (None, ?w')"
    using iteration_got[OF assms(1,2)] by (simp add: classify_def)
  have "DoneElements (res ?w') = DoneElements (res w)"
    by (simp add: say_def shrink_fields r2 d)
  moreover have "trace ?w' = trace w2 @ [Sleep 30]" by (simp add: say_def shrink_fields)
  moreover have "if 3 \<le> timeoutCount w + 1 \<and> 1000 < ?c
            then chunkSize (res ?w') = ?c - 1000 \<and> timeoutCount ?w' = 0
            else chunkSize (res ?w') = ?c \<and> timeoutCount ?w' = timeoutCount w + 1"
    by (simp add: say_def shrink_def Let_def r2 t2 wrap)
  ultimately show ?thesis using it by blast
qed

text \<open>
  The theorem at a third 504 in a row with the chunk size at 10000: it shrinks to 9000.
\<close>

theorem timeout_504_shrinks_above_1000_witness:
  "\<exists>w'. iteration flags0 (always 504 []) (world0 10000 0 25000 2) = (None, w') \<and>
        DoneElements (res w') = 0 \<and> chunkSize (res w') = 9000 \<and> timeoutCount w' = 0"
proof -
  let ?w = "world0 10000 0 25000 2"
  let ?r = "retry 5 10 (nextChunk flags0 (always 504 [])) (clamp ?w)"
  have c: "res (clamp ?w) = res ?w" by (simp add: clamp_def world0_def Let_def i64_id)
  have h1: "DoneElements (res ?w) \<noteq> TotalElements (res ?w)" by (simp add: world0_def)
  have "fst ?r = Got (504, [], False, 0)" by code_simp
  then have h2: "?r = (Got (504, [], False, 0), snd ?r)" by (simp add: prod_eq_iff)
  have cc: "chunkSize (res (clamp ?w)) = 10000" unfolding c by (simp add: world0_def)
  have tc: "timeoutCount ?w = 2" and d0: "DoneElements (res ?w) = 0" by (simp_all add: world0_def)
  have h3: "- (2 ^ 63) + 1000 \<le> chunkSize (res (clamp ?w))" unfolding cc by simp
  have h4: "chunkSize (res (clamp ?w)) < 2 ^ 63" unfolding cc by simp
  from timeout_504_shrinks_above_1000[OF h1 h2 h3 h4] obtain w' where
    it: "iteration flags0 (always 504 []) ?w = (None, w')"
    and dn: "DoneElements (res w') = DoneElements (res ?w)"
    and sh: "if 3 \<le> timeoutCount ?w + 1 \<and> 1000 < chunkSize (res (clamp ?w))
             then chunkSize (res w') = chunkSize (res (clamp ?w)) - 1000 \<and> timeoutCount w' = 0
             else chunkSize (res w') = chunkSize (res (clamp ?w)) \<and>
                  timeoutCount w' = timeoutCount ?w + 1"
    by blast
  from sh have "chunkSize (res w') = 9000 \<and> timeoutCount w' = 0" unfolding cc tc by simp
  with it dn d0 show ?thesis by auto
qed

text \<open>
  Claim C5 as the specification words it fails with a chunk size of 1000: the third
  504 leaves the chunk size at 1000 and \<^verbatim>\<open>timeoutCount\<close> at 3, neither decreased by
  1000 nor reset.
\<close>

theorem timeout_504_counterexample:
  "timeoutCount (snd (iteration flags0 (always 504 []) (world0 1000 0 25000 2))) = 3 \<and>
   chunkSize (res (snd (iteration flags0 (always 504 []) (world0 1000 0 25000 2)))) = 1000"
  by code_simp

section \<open>Status 429: throttling\<close>

text \<open>
  Claim C6, as the code has it. Let a pass of the loop fetch its chunk with status 429.
  Then the pass ends without a result and the loop goes round again; the
  \<^verbatim>\<open>Resumer\<close> (chunk size, \<^verbatim>\<open>DoneElements\<close> and the rest) is the one the request was
  built from and \<^verbatim>\<open>timeoutCount\<close> is unchanged; one sleep of 30 seconds is the last
  thing that happened; the next pass builds the same request again; and
  \<^verbatim>\<open>errorCount\<close> has been incremented by one for the 429.
\<close>

theorem throttled_429_counts_error:
  assumes "DoneElements (res w) \<noteq> TotalElements (res w)"
    and "retry 5 10 (nextChunk fl env) (clamp w) = (Got (429, body, e, sk), w2)"
  shows "\<exists>w'. iteration fl env w = (None, w') \<and>
           res w' = res (clamp w) \<and> timeoutCount w' = timeoutCount w \<and>
           errorCount w' = errorCount w2 + 1 \<and>
           trace w' = trace w2 @ [Sleep 30] \<and>
           chunk_request fl (res (clamp w')) = chunk_request fl (res (clamp w))"
proof -
  have lg: "logged (clamp w) w2" using retry_nextChunk(1)[OF assms(2)] .
  have r2: "res w2 = res (clamp w)" and t2: "timeoutCount w2 = timeoutCount w"
    using logged_fields[OF lg] by (simp_all add: clamp_def Let_def)
  let ?w' = "say (Sleep 30) (w2\<lparr>errorCount := errorCount w2 + 1\<rparr>)"
  have it: "iteration fl env w = (None, ?w')"
    using iteration_got[OF assms(1,2)] by (simp add: classify_def)
  have r': "res ?w' = res (clamp w)" by (simp add: say_def r2)
  have "chunk_request fl (res (clamp ?w')) = chunk_request fl (res (clamp w))"
    using clamp_idem[OF r'] by simp
  then show ?thesis using it r' t2 by (intro exI[of _ ?w']) (simp add: say_def)
qed

text \<open>The theorem at a first request answered with 429.\<close>

theorem throttled_429_counts_error_witness:
  "\<exists>w'. iteration flags0 (always 429 []) (world0 10000 0 25000 0) = (None, w') \<and>
        res w' = res (world0 10000 0 25000 0) \<and> timeoutCount w' = 0 \<and> errorCount w' = 1"
proof -
  let ?w = "world0 10000 0 25000 0"
  let ?r = "retry 5 10 (nextChunk flags0 (always 429 [])) (clamp ?w)"
  have c: "res (clamp ?w) = res ?w" by (simp add: clamp_def world0_def Let_def i64_id)
  have h1: "DoneElements (res ?w) \<noteq> TotalElements (res ?w)" by (simp add: world0_def)
  have f: "fst ?r = Got (429, [], False, 0)" by code_simp
  then have h2: "?r = (Got (429, [], False, 0), snd ?r)" by (simp add: prod_eq_iff)
  have e2: "errorCount (snd ?r) = 0" by code_simp
  have tc: "timeoutCount ?w = 0" by (simp add: world0_def)
  from throttled_429_counts_error[OF h1 h2] obtain w' where
    "iteration flags0 (always 429 []) ?w = (None, w')" "res w' = res (clamp ?w)"
    "timeoutCount w' = timeoutCount ?w" "errorCount w' = errorCount (snd ?r) + 1"
    by blast
  then show ?thesis unfolding c e2 tc by auto
qed

text \<open>
  Claim C6 as the specification words it says that a 429 does not increment the error
  counter. It does: the counter is 0 before the pass and 1 after it.
\<close>

theorem throttled_429_counterexample:
  "errorCount (world0 10000 0 25000 0) = 0 \<and>
   errorCount (snd (iteration flags0 (always 429 []) (world0 10000 0 25000 0))) = 1"
  by code_simp

section \<open>Claim C7: resuming with a different detail flag\<close>

text \<open>
  Claim C7 says that a resuming invocation whose detail flag differs from the one in
  the checkpoint aborts before any network call and leaves both files alone. \<^verbatim>\<open>init\<close>
  prints its warning and returns, and then \<^verbatim>\<open>main\<close> runs. On a checkpoint with no row
  done, the first pass of the loop sends a request (chunk 0 with chunk size 0, the
  size never having been set), writes the answer to the output file and rewrites the
  checkpoint.
\<close>

theorem details_mismatch_still_fetches:
  "fst mismatch_run = OutOfFuel \<and>
   calls (snd mismatch_run) = 1 \<and>
   trace (snd mismatch_run) =
     [Println (DetailsWarning False True),
      Fetch \<lparr>req_username = ''user'', req_password = ''secret'', req_crawl = 1,
             req_deep = ''0'', req_chunk = 0, req_chunk_size = 0, req_output = Tsv\<rparr>] \<and>
   out_file (snd mismatch_run) = Some (render [''url'', ''https://example.org/'']) \<and>
   side_file (snd mismatch_run) = Some (Json (checkpoint0\<lparr>j_doneElements := 1\<rparr>))"
  by code_simp

section \<open>Claim C8: the invariants of the checkpoint\<close>

text \<open>
  Claim C8, as the code has it. Let the loop start in a state with
  \<open>0 \<le> DoneElements \<le> TotalElements\<close> and \<open>chunkSize > 0\<close> (both below \<open>2\<^sup>6\<^sup>3\<close>), against a
  server that never sends more rows than the chunk size asked for. Then after any
  number of passes, whatever the status codes and transport errors on the way, the
  state satisfies \<open>0 \<le> DoneElements \<le> TotalElements\<close> and \<open>chunkSize > 0\<close>, and so does
  the state from which the next request is built (after line 242 has cut the chunk
  size down) whenever rows remain.
\<close>

theorem invariants_preserved:
  assumes "invariants w" and "int64_typed w" and "well_sized env"
  shows "invariants (snd (main_loop n fl env w)) \<and>
         (DoneElements (res (snd (main_loop n fl env w))) \<noteq>
            TotalElements (res (snd (main_loop n fl env w))) \<longrightarrow>
          invariants (clamp (snd (main_loop n fl env w))))"
proof -
  have s: "sound (snd (main_loop n fl env w))"
    using sound_main_loop[of w env n fl] assms by (simp add: sound_def)
  then show ?thesis using sound_clamp(1)[OF s] by (auto simp: sound_def)
qed

text \<open>The theorem on two passes over three rows at chunk size 2.\<close>

theorem invariants_preserved_witness:
  "invariants (snd (main_loop 2 flags0 (api ''url'' [''a'', ''b'', ''c'']) (world0 2 0 3 0))) \<and>
   DoneElements (res (snd (main_loop 2 flags0 (api ''url'' [''a'', ''b'', ''c'']) (world0 2 0 3 0)))) = 3"
proof -
  have h: "invariants (world0 2 0 3 0)" "int64_typed (world0 2 0 3 0)"
    by (simp_all add: invariants_def int64_typed_def world0_def)
  have d: "DoneElements (res (snd (main_loop 2 flags0 (api ''url'' [''a'', ''b'', ''c''])
             (world0 2 0 3 0)))) = 3"
    by code_simp
  from invariants_preserved[OF h well_sized_api[of "''url''" "[''a'', ''b'', ''c'']"], of 2 flags0] d
  show ?thesis by simp
qed

text \<open>
  Claim C8 as the specification words it holds in every reachable state. The loop
  counts every line it scans and checks nothing against the chunk size or the total:
  a response with three rows, where two rows are left, leaves \<^verbatim>\<open>DoneElements\<close> at 3
  above \<^verbatim>\<open>TotalElements\<close> at 2, and the next pass sets the chunk size to \<open>-1\<close>.
\<close>

theorem invariants_counterexample:
  "DoneElements (res (snd (main_loop 1 flags0 (always 200 [''url'', ''a'', ''b'', ''c''])
      (world0 10000 0 2 0)))) = 3 \<and>
   TotalElements (res (snd (main_loop 1 flags0 (always 200 [''url'', ''a'', ''b'', ''c''])
      (world0 10000 0 2 0)))) = 2 \<and>
   chunkSize (res (snd (main_loop 2 flags0 (always 200 [''url'', ''a'', ''b'', ''c''])
      (world0 10000 0 2 0)))) = - 1"
  by code_simp

section \<open>Claim C9: when the resumer file is removed\<close>

text \<open>
  The loop by itself. Run it for any number of passes, from any state and against any
  server. If it ends with completion, \<^verbatim>\<open>DoneElements\<close> equals \<^verbatim>\<open>TotalElements\<close>, and
  when the rows go to a file the resumer file is gone and its removal happened exactly
  once, as the very last event after the status line of completion: no request follows
  it. (When the rows go to standard output there is no resumer file and nothing is
  removed.) If the loop ends in any other way, or is still running, the resumer file
  has not been removed: a file that was there is still there.
\<close>

lemma resumer_removed_only_on_completion:
  assumes "main_loop n fl env w = (oc, w')"
  shows "(oc = Completed \<longrightarrow>
            DoneElements (res w') = TotalElements (res w') \<and>
            (outputPath fl \<noteq> [] \<longrightarrow>
               side_file w' = None \<and>
               (\<exists>evs. trace w' = trace w @ evs @ [StatusCompleted, RemoveResumer] \<and>
                      RemoveResumer \<notin> set evs)) \<and>
            (outputPath fl = [] \<longrightarrow>
               (\<exists>evs. trace w' = trace w @ evs \<and> RemoveResumer \<notin> set evs))) \<and>
         (oc \<noteq> Completed \<longrightarrow>
            (\<exists>evs. trace w' = trace w @ evs \<and> RemoveResumer \<notin> set evs) \<and>
            (side_file w \<noteq> None \<longrightarrow> side_file w' \<noteq> None))"
  using main_loop_removal[OF assms] unfolding kept_def by (auto split: if_splits)

text \<open>The same on a session of three rows that completes in three passes.\<close>

lemma resumer_removed_only_on_completion_example:
  "fst (main_loop 3 flags0 (api ''url'' [''a'', ''b'', ''c'']) (tracked 2 0 3)) = Completed \<and>
   side_file (tracked 2 0 3) \<noteq> None \<and>
   side_file (snd (main_loop 3 flags0 (api ''url'' [''a'', ''b'', ''c'']) (tracked 2 0 3))) = None \<and>
   (\<exists>evs. trace (snd (main_loop 3 flags0 (api ''url'' [''a'', ''b'', ''c'']) (tracked 2 0 3))) =
            trace (tracked 2 0 3) @ evs @ [StatusCompleted, RemoveResumer] \<and>
          RemoveResumer \<notin> set evs)"
proof -
  let ?r = "main_loop 3 flags0 (api ''url'' [''a'', ''b'', ''c'']) (tracked 2 0 3)"
  have f: "fst ?r = Completed" by code_simp
  then have h: "?r = (Completed, snd ?r)" by (simp add: prod_eq_iff)
  have o: "outputPath flags0 \<noteq> []" by (simp add: flags0_def)
  have s: "side_file (tracked 2 0 3) \<noteq> None" by (simp add: tracked_def)
  from resumer_removed_only_on_completion[OF h] o f s show ?thesis by blast
qed

text \<open>
  Claim C9 says that the resumer file is deleted once, when the session has fetched
  every row, and on no abort path. The aborts of \<^verbatim>\<open>init\<close> are \<^verbatim>\<open>return\<close> statements,
  after which \<^verbatim>\<open>main\<close> runs on the zero \<^verbatim>\<open>Resumer\<close>: 0 rows done of 0, so the first
  pass reports completion and removes the resumer file. With \<^verbatim>\<open>--no-resume\<close> on the
  files of a session that has stored 5 of 10 rows, \<^verbatim>\<open>init\<close> prints that the file
  already exists, no request is sent, the output file stays as it is and the resumer
  file is deleted. With the output file gone, \<^verbatim>\<open>init\<close> gives up after five failed
  attempts of the probe, and the resumer file is deleted all the same.
\<close>

theorem init_return_removes_resumer:
  "fst no_resume_on_existing_run = Completed \<and>
   trace (snd no_resume_on_existing_run) =
     [Println FileAlreadyExists, StatusCompleted, RemoveResumer] \<and>
   calls (snd no_resume_on_existing_run) = 0 \<and>
   side_file (snd no_resume_on_existing_run) = None \<and>
   out_file (snd no_resume_on_existing_run) =
     Some (render [''url'', ''a'', ''b'', ''c'', ''d'', ''e'']) \<and>
   fst probe_exhausted_run = Completed \<and>
   calls (snd probe_exhausted_run) = 5 \<and>
   errorCount (snd probe_exhausted_run) = 4 \<and>
   side_file (snd probe_exhausted_run) = None \<and>
   out_file (snd probe_exhausted_run) = None"
  by code_simp

section \<open>Claim C10: status codes that are neither 200 nor 4xx nor 5xx\<close>



end
